theory Spec2Isabelle
  imports Main
begin

section \<open>Text\<close>

text \<open>
  A Python \<open>str\<close> is a sequence of Unicode code points.  It is modelled as a list of
  natural numbers, one per code point.  ASCII literals of the source are written with
  \<open>asc\<close>; other literals are written out as code points.
\<close>

type_synonym ustring = "nat list"

definition asc :: "string \<Rightarrow> ustring" where
  "asc s = map of_char s"

text \<open>
  \<open>str.isspace\<close> on one code point, which is also the class \<open>\s\<close> of \<open>re\<close> on
  \<open>str\<close> patterns: U+0009..U+000D, U+001C..U+0020, U+0085, U+00A0, U+1680,
  U+2000..U+200A, U+2028, U+2029, U+202F, U+205F, U+3000.
\<close>

definition is_space :: "nat \<Rightarrow> bool" where
  "is_space c \<longleftrightarrow>
     (9 \<le> c \<and> c \<le> 13) \<or> (28 \<le> c \<and> c \<le> 32) \<or> c = 133 \<or> c = 160 \<or> c = 5760 \<or>
     (8192 \<le> c \<and> c \<le> 8202) \<or> c = 8232 \<or> c = 8233 \<or> c = 8239 \<or> c = 8287 \<or>
     c = 12288"

text \<open>
  The class \<open>\d\<close> of \<open>re\<close> on \<open>str\<close> patterns is the Unicode category Nd.  Every
  run of decimal digits in Unicode is ten consecutive code points; \<open>nd_zeros\<close> lists the
  code point of the zero of each run (Unicode 14.0).
\<close>

definition nd_zeros :: "nat list" where
  "nd_zeros =
    [0x30, 0x660, 0x6f0, 0x7c0, 0x966, 0x9e6, 0xa66, 0xae6, 0xb66, 0xbe6, 0xc66, 0xce6,
     0xd66, 0xde6, 0xe50, 0xed0, 0xf20, 0x1040, 0x1090, 0x17e0, 0x1810, 0x1946, 0x19d0,
     0x1a80, 0x1a90, 0x1b50, 0x1bb0, 0x1c40, 0x1c50, 0xa620, 0xa8d0, 0xa900, 0xa9d0,
     0xa9f0, 0xaa50, 0xabf0, 0xff10, 0x104a0, 0x10d30, 0x11066, 0x110f0, 0x11136,
     0x111d0, 0x112f0, 0x11450, 0x114d0, 0x11650, 0x116c0, 0x11730, 0x118e0, 0x11950,
     0x11c50, 0x11d50, 0x11da0, 0x16a60, 0x16ac0, 0x16b50, 0x1d7ce, 0x1d7d8, 0x1d7e2,
     0x1d7ec, 0x1d7f6, 0x1e140, 0x1e2f0, 0x1e950, 0x1fbf0]"

definition is_decimal :: "nat \<Rightarrow> bool" where
  "is_decimal c \<longleftrightarrow> list_ex (\<lambda>z. z \<le> c \<and> c < z + 10) nd_zeros"

text \<open>\<open>s.strip(chars)\<close>: drop the characters of the class from both ends.\<close>

definition strip_chars :: "(nat \<Rightarrow> bool) \<Rightarrow> ustring \<Rightarrow> ustring" where
  "strip_chars p s = rev (dropWhile p (rev (dropWhile p s)))"

definition strip :: "ustring \<Rightarrow> ustring" where
  "strip s = strip_chars is_space s"

definition startswith :: "ustring \<Rightarrow> ustring \<Rightarrow> bool" where
  "startswith s p \<longleftrightarrow> take (length p) s = p"

section \<open>Regular expressions\<close>

text \<open>
  The fragment of Python's \<open>re\<close> that the source uses: literal characters (compared
  without regard to case under \<open>re.IGNORECASE\<close>), the classes \<open>\s\<close>, \<open>\d\<close>, \<open>.\<close> and
  bracket sets, concatenation, alternation, the greedy quantifiers \<open>?\<close>, \<open>*\<close>, \<open>+\<close>
  and the lazy \<open>*?\<close> on a character class, and one capturing group.
\<close>

datatype cclass =
    CLit nat            \<comment> \<open>a literal character\<close>
  | CLitI nat           \<comment> \<open>a literal character under \<open>re.IGNORECASE\<close>\<close>
  | COneOf "nat list"   \<comment> \<open>a bracket set\<close>
  | CSpace              \<comment> \<open>\<open>\s\<close>\<close>
  | CDigit              \<comment> \<open>\<open>\d\<close>\<close>
  | CDot                \<comment> \<open>\<open>.\<close> without \<open>re.DOTALL\<close>\<close>
  | CAny                \<comment> \<open>\<open>.\<close> with \<open>re.DOTALL\<close>\<close>

text \<open>
  The literals of the patterns compiled with \<open>re.IGNORECASE\<close> are lower-case ASCII
  letters and punctuation.  A lower-case ASCII letter matches itself, its upper-case form
  and the code points that share its case folding: U+212A (Kelvin sign) for \<open>k\<close>,
  U+0130 and U+0131 for \<open>i\<close>, U+017F for \<open>s\<close>.  Any other character matches itself.
\<close>

definition ci_match :: "nat \<Rightarrow> nat \<Rightarrow> bool" where
  "ci_match p x \<longleftrightarrow>
     x = p \<or> (97 \<le> p \<and> p \<le> 122 \<and> x + 32 = p) \<or>
     (p = 107 \<and> x = 0x212a) \<or> (p = 105 \<and> (x = 0x130 \<or> x = 0x131)) \<or>
     (p = 115 \<and> x = 0x17f)"

fun cmatch :: "cclass \<Rightarrow> nat \<Rightarrow> bool" where
  "cmatch (CLit p) x = (x = p)"
| "cmatch (CLitI p) x = ci_match p x"
| "cmatch (COneOf ps) x = (x \<in> set ps)"
| "cmatch CSpace x = is_space x"
| "cmatch CDigit x = is_decimal x"
| "cmatch CDot x = (x \<noteq> 10)"
| "cmatch CAny x = True"

datatype rx =
    Sym cclass
  | Cat rx rx
  | Alt rx rx
  | Opt cclass          \<comment> \<open>\<open>c?\<close>\<close>
  | Star cclass         \<comment> \<open>\<open>c*\<close>\<close>
  | Plus cclass         \<comment> \<open>\<open>c+\<close>\<close>
  | LazyStar cclass     \<comment> \<open>\<open>c*?\<close>\<close>
  | Grp rx              \<comment> \<open>\<open>(...)\<close>, group 1\<close>

text \<open>
  The matcher is the backtracking search of \<open>re\<close>, written with a continuation: the
  continuation receives the rest of the text and the text captured by the group so far,
  and the first alternative whose continuation succeeds is taken.  A greedy quantifier
  tries the longest repetition first, a lazy one the shortest.
\<close>

fun star_greedy :: "cclass \<Rightarrow> ustring \<Rightarrow> (ustring \<Rightarrow> 'a option) \<Rightarrow> 'a option" where
  "star_greedy c [] k = k []"
| "star_greedy c (x # xs) k =
     (if cmatch c x
      then (case star_greedy c xs k of Some r \<Rightarrow> Some r | None \<Rightarrow> k (x # xs))
      else k (x # xs))"

fun star_lazy :: "cclass \<Rightarrow> ustring \<Rightarrow> (ustring \<Rightarrow> 'a option) \<Rightarrow> 'a option" where
  "star_lazy c [] k = k []"
| "star_lazy c (x # xs) k =
     (case k (x # xs) of
        Some r \<Rightarrow> Some r
      | None \<Rightarrow> if cmatch c x then star_lazy c xs k else None)"

fun rmatch ::
  "rx \<Rightarrow> ustring \<Rightarrow> ustring option \<Rightarrow> (ustring \<Rightarrow> ustring option \<Rightarrow> 'a option) \<Rightarrow> 'a option"
where
  "rmatch (Sym c) s g k =
     (case s of [] \<Rightarrow> None | x # xs \<Rightarrow> if cmatch c x then k xs g else None)"
| "rmatch (Cat a b) s g k = rmatch a s g (\<lambda>s' g'. rmatch b s' g' k)"
| "rmatch (Alt a b) s g k =
     (case rmatch a s g k of Some r \<Rightarrow> Some r | None \<Rightarrow> rmatch b s g k)"
| "rmatch (Opt c) s g k =
     (case (case s of [] \<Rightarrow> None | x # xs \<Rightarrow> if cmatch c x then k xs g else None) of
        Some r \<Rightarrow> Some r
      | None \<Rightarrow> k s g)"
| "rmatch (Star c) s g k = star_greedy c s (\<lambda>s'. k s' g)"
| "rmatch (Plus c) s g k =
     (case s of [] \<Rightarrow> None
      | x # xs \<Rightarrow> if cmatch c x then star_greedy c xs (\<lambda>s'. k s' g) else None)"
| "rmatch (LazyStar c) s g k = star_lazy c s (\<lambda>s'. k s' g)"
| "rmatch (Grp a) s g k =
     rmatch a s g (\<lambda>s' g'. k s' (Some (take (length s - length s') s)))"

text \<open>
  \<open>re.search(pattern, text)\<close> tries the pattern at each position from the left and
  returns the first match.  The result is \<open>match.group(1)\<close>; a pattern whose group did
  not take part in the match gives the empty text here (the patterns of the source always
  match through their group).
\<close>

definition match_here :: "rx \<Rightarrow> ustring \<Rightarrow> ustring option" where
  "match_here r s = rmatch r s None (\<lambda>s' g. Some (case g of None \<Rightarrow> [] | Some w \<Rightarrow> w))"

fun search :: "rx \<Rightarrow> ustring \<Rightarrow> ustring option" where
  "search r [] = match_here r []"
| "search r (x # xs) =
     (case match_here r (x # xs) of Some w \<Rightarrow> Some w | None \<Rightarrow> search r xs)"

text \<open>A literal text as a pattern, and the same under \<open>re.IGNORECASE\<close>.\<close>

fun lit :: "ustring \<Rightarrow> rx \<Rightarrow> rx" where
  "lit [] r = r"
| "lit (c # cs) r = Cat (Sym (CLit c)) (lit cs r)"

fun lit_i :: "ustring \<Rightarrow> rx \<Rightarrow> rx" where
  "lit_i [] r = r"
| "lit_i (c # cs) r = Cat (Sym (CLitI c)) (lit_i cs r)"

section \<open>The parsed page\<close>

text \<open>
  \<open>BeautifulSoup(html, 'html.parser')\<close> turns the page into a tree.  The tree is the
  input of the model: a node is a text string or an element with its tag name, the values
  of its \<open>class\<close> attribute, its other attributes and its children.
\<close>

datatype node =
    Text ustring
  | Elem string "string list" "(string \<times> ustring) list" "node list"

text \<open>All nodes below a node, in document order.\<close>

fun descendants :: "node \<Rightarrow> node list" where
  "descendants (Text t) = []"
| "descendants (Elem tg cls ats ch) = concat (map (\<lambda>c. c # descendants c) ch)"

fun has_tag_class :: "string \<Rightarrow> string \<Rightarrow> node \<Rightarrow> bool" where
  "has_tag_class tg c (Text t) = False"
| "has_tag_class tg c (Elem tg' cls ats ch) = (tg' = tg \<and> c \<in> set cls)"

text \<open>\<open>node.find_all(tag, class_=c)\<close> and \<open>node.find(tag, class_=c)\<close>.\<close>

definition find_all :: "node \<Rightarrow> string \<Rightarrow> string \<Rightarrow> node list" where
  "find_all n tg c = filter (has_tag_class tg c) (descendants n)"

definition find_first :: "node \<Rightarrow> string \<Rightarrow> string \<Rightarrow> node option" where
  "find_first n tg c = (case find_all n tg c of [] \<Rightarrow> None | e # _ \<Rightarrow> Some e)"

fun attr :: "node \<Rightarrow> string \<Rightarrow> ustring option" where
  "attr (Text t) a = None"
| "attr (Elem tg cls ats ch) a = map_of ats a"

text \<open>
  \<open>node.get_text(strip=True)\<close>: the text strings below the node in document order, each
  stripped, the empty ones left out, joined without a separator.
\<close>

fun strings :: "node \<Rightarrow> ustring list" where
  "strings (Text t) = [t]"
| "strings (Elem tg cls ats ch) = concat (map strings ch)"

definition get_text_strip :: "node \<Rightarrow> ustring" where
  "get_text_strip n = concat (filter (\<lambda>t. t \<noteq> []) (map strip (strings n)))"

section \<open>Movie records\<close>

text \<open>
  A movie record is a Python \<open>dict\<close> from text keys to text values.  The keys of the
  source, as code points:
  poster (U+5716 U+7247), native title (U+4E2D U+6587 U+7247 U+540D), original title
  (U+82F1 U+6587 U+7247 U+540D), rating (U+8A55 U+5206), certification (U+5206 U+7D1A),
  duration (U+7247 U+9577), genre (U+985E U+578B), release window
  (U+4E0A U+6620 U+6642 U+9593), trailer link (U+9810 U+544A U+7247 U+9023 U+7D50).
\<close>

type_synonym movie = "ustring \<rightharpoonup> ustring"

definition k_poster :: ustring where "k_poster = [0x5716, 0x7247]"
definition k_title :: ustring where "k_title = [0x4e2d, 0x6587, 0x7247, 0x540d]"
definition k_eng_title :: ustring where "k_eng_title = [0x82f1, 0x6587, 0x7247, 0x540d]"
definition k_rating :: ustring where "k_rating = [0x8a55, 0x5206]"
definition k_cert :: ustring where "k_cert = [0x5206, 0x7d1a]"
definition k_duration :: ustring where "k_duration = [0x7247, 0x9577]"
definition k_genre :: ustring where "k_genre = [0x985e, 0x578b]"
definition k_release :: ustring where "k_release = [0x4e0a, 0x6620, 0x6642, 0x9593]"
definition k_trailer :: ustring where "k_trailer = [0x9810, 0x544a, 0x7247, 0x9023, 0x7d50]"

text \<open>The truth value of \<open>movie.get(key)\<close>: false when the key is absent or its text empty.\<close>

definition truthy :: "movie \<Rightarrow> ustring \<Rightarrow> bool" where
  "truthy m k = (case m k of None \<Rightarrow> False | Some v \<Rightarrow> v \<noteq> [])"

section \<open>Field extraction\<close>

definition quote_class :: cclass where
  "quote_class = COneOf [39, 34]"

text \<open>\<open>url\(['\"]?(.*?)['\"]?\)\<close>, compiled with \<open>re.IGNORECASE\<close>.\<close>

definition url_rx :: rx where
  "url_rx =
     lit_i (asc ''url('')
       (Cat (Opt quote_class)
         (Cat (Grp (LazyStar CDot)) (Cat (Opt quote_class) (Sym (CLitI 41)))))"

definition image_patterns :: "rx list" where
  "image_patterns =
     [lit_i (asc ''background-image:'') (Cat (Star CSpace) url_rx),
      lit_i (asc ''background:'') (Cat (Star CSpace) url_rx),
      url_rx]"

text \<open>
  The loop of \<open>extract_image_url\<close> over the patterns: the first pattern that matches with
  a non-empty URL outside the \<open>data:\<close> scheme returns it.
\<close>

fun image_url_loop :: "rx list \<Rightarrow> ustring \<Rightarrow> ustring" where
  "image_url_loop [] style = []"
| "image_url_loop (p # ps) style =
     (case search p style of
        None \<Rightarrow> image_url_loop ps style
      | Some g \<Rightarrow>
          (let img_url = strip (strip_chars (\<lambda>c. c = 39 \<or> c = 34) g)
           in if img_url \<noteq> [] \<and> \<not> startswith img_url (asc ''data:'')
              then img_url
              else image_url_loop ps style))"

definition extract_image_url :: "node \<Rightarrow> ustring" where
  "extract_image_url item =
     (case find_first item ''figure'' ''detailListItem-posterImage'' of
        None \<Rightarrow> []
      | Some figure \<Rightarrow>
          (case attr figure ''style'' of
             None \<Rightarrow> []
           | Some style \<Rightarrow> image_url_loop image_patterns style))"

definition extract_text_content :: "node \<Rightarrow> string \<Rightarrow> string \<Rightarrow> ustring" where
  "extract_text_content item tg class_name =
     (case find_first item tg class_name of
        None \<Rightarrow> []
      | Some element \<Rightarrow> get_text_strip element)"

text \<open>\<open>(\d+\<close>U+5C0F U+6642\<open>\d+\<close>U+5206\<open>)\<close>: hours and minutes.\<close>

definition duration_rx :: rx where
  "duration_rx =
     Grp (Cat (Plus CDigit) (lit [0x5c0f, 0x6642] (Cat (Plus CDigit) (Sym (CLit 0x5206)))))"

text \<open>U+4E0A U+6620\<open>(\d+\<close>U+9031\<open>|\d+\<close>U+5929\<open>)\<close>: weeks or days since release.\<close>

definition release_rx :: rx where
  "release_rx =
     lit [0x4e0a, 0x6620]
       (Grp (Alt (Cat (Plus CDigit) (Sym (CLit 0x9031)))
                 (Cat (Plus CDigit) (Sym (CLit 0x5929)))))"

text \<open>The body of \<open>extract_status_info\<close> once the status text has been read.\<close>

definition status_fields :: "ustring \<Rightarrow> movie \<Rightarrow> movie" where
  "status_fields text movie =
     (let movie1 = (case search duration_rx text of
                      None \<Rightarrow> movie
                    | Some g \<Rightarrow> movie(k_duration \<mapsto> g));
          movie2 = (case search release_rx text of
                      None \<Rightarrow> movie1
                    | Some g \<Rightarrow> movie1(k_release \<mapsto> [0x4e0a, 0x6620] @ g))
      in movie2)"

definition extract_status_info :: "node \<Rightarrow> movie \<Rightarrow> movie" where
  "extract_status_info item movie =
     (case find_first item ''div'' ''detailListItem-status'' of
        None \<Rightarrow> movie
      | Some status \<Rightarrow> status_fields (get_text_strip status) movie)"

text \<open>
  \<open>text.split(c)[-1]\<close>: the text after the last occurrence of \<open>c\<close>.
\<close>

definition after_last :: "nat \<Rightarrow> ustring \<Rightarrow> ustring" where
  "after_last c s = rev (takeWhile (\<lambda>x. x \<noteq> c) (rev s))"

text \<open>
  \<open>[t for t in re.split(r'[\<close>U+2022\<open>\s]+', types) if t]\<close>: the maximal runs of characters
  that are neither a bullet nor white space.
\<close>

definition is_sep :: "nat \<Rightarrow> bool" where
  "is_sep c \<longleftrightarrow> c = 0x2022 \<or> is_space c"

fun tokens :: "ustring \<Rightarrow> ustring \<Rightarrow> ustring list" where
  "tokens cur [] = (if cur = [] then [] else [cur])"
| "tokens cur (x # xs) =
     (if is_sep x then (if cur = [] then tokens [] xs else cur # tokens [] xs)
      else tokens (cur @ [x]) xs)"

fun join :: "ustring \<Rightarrow> ustring list \<Rightarrow> ustring" where
  "join sep [] = []"
| "join sep [t] = t"
| "join sep (t # ts) = t @ sep @ join sep ts"

definition extract_category_info :: "node \<Rightarrow> movie \<Rightarrow> movie" where
  "extract_category_info item movie =
     (case find_first item ''div'' ''detailListItem-category'' of
        None \<Rightarrow> movie
      | Some category \<Rightarrow>
          (let text = get_text_strip category
           in if 0x7d1a \<in> set text
              then (let types = after_last 0x7d1a text;
                        type_list = tokens [] types
                    in if type_list \<noteq> []
                       then movie(k_genre \<mapsto> join [32, 0x2022, 32] type_list)
                       else movie)
              else movie))"

definition extract_movie_info :: "node \<Rightarrow> movie" where
  "extract_movie_info item =
     (let movie = Map.empty;
          movie = movie(k_poster \<mapsto> extract_image_url item);
          movie = movie(k_title \<mapsto> extract_text_content item ''h2'' ''detailListItem-title'');
          movie = movie(k_eng_title \<mapsto> extract_text_content item ''h3'' ''detailListItem-engTitle'');
          movie = movie(k_rating \<mapsto> extract_text_content item ''span'' ''iconInfo-text'');
          movie = (case find_first item ''div'' ''detailListItem-certificate'' of
                     None \<Rightarrow> movie
                   | Some cert_div \<Rightarrow>
                       (case find_first cert_div ''span'' ''glnBadge-text'' of
                          None \<Rightarrow> movie
                        | Some badge \<Rightarrow> movie(k_cert \<mapsto> get_text_strip badge)));
          movie = extract_status_info item movie;
          movie = extract_category_info item movie;
          movie = (case find_first item ''a'' ''detailListItem-trailer'' of
                     None \<Rightarrow> movie
                   | Some trailer \<Rightarrow>
                       (case attr trailer ''href'' of
                          None \<Rightarrow> movie
                        | Some href \<Rightarrow> movie(k_trailer \<mapsto> asc ''https://today.line.me'' @ href)))
      in movie)"

text \<open>\<open>parse_movies_from_html\<close>, on the parsed page.\<close>

definition parse_movies_from_html :: "node \<Rightarrow> movie list" where
  "parse_movies_from_html soup =
     filter (\<lambda>movie. truthy movie k_title)
       (map extract_movie_info (find_all soup ''li'' ''detailList-item''))"

section \<open>Exceptions\<close>

datatype py_exc =
    PlaywrightTimeoutError
  | JSONDecodeError
  | ValueError
  | TypeError
  | UnicodeEncodeError
  | OtherException

text \<open>A computation that returns a value or raises; \<open>then_do\<close> runs the next statement.\<close>

definition then_do :: "py_exc + 'a \<Rightarrow> ('a \<Rightarrow> py_exc + 'b) \<Rightarrow> py_exc + 'b" where
  "then_do m f = (case m of Inl e \<Rightarrow> Inl e | Inr x \<Rightarrow> f x)"

section \<open>Message cards\<close>

text \<open>
  The objects of the messaging SDK that the source constructs.  Keyword arguments that
  are fixed styling are kept as a list of name and value.
\<close>

datatype component =
    TextComponent ustring "(string \<times> string) list"
  | ImageComponent ustring "(string \<times> string) list"
  | URIAction ustring ustring
  | ButtonComponent component "(string \<times> string) list"
  | BoxComponent string "component list" "(string \<times> string) list"
  | BubbleContainer "component option" "component option" "component option"
      "component option"   \<comment> \<open>header, hero, body, footer\<close>
  | CarouselContainer "component list"
  | FlexSendMessage ustring component

text \<open>
  The SDK is outside the repository.  Its behaviour is a parameter: for each object, the
  exception its constructor raises, if any.
\<close>

type_synonym sdk = "component \<Rightarrow> py_exc option"

definition mk :: "sdk \<Rightarrow> component \<Rightarrow> py_exc + component" where
  "mk sdk c = (case sdk c of Some e \<Rightarrow> Inl e | None \<Rightarrow> Inr c)"

definition MAX_MOVIES :: nat where
  "MAX_MOVIES = 10"

text \<open>The fallback label U+672A U+77E5 U+96FB U+5F71 (unknown movie).\<close>

definition unknown_movie :: ustring where
  "unknown_movie = [0x672a, 0x77e5, 0x96fb, 0x5f71]"

text \<open>\<open>if movie.get(k): ... movie[k] ...\<close>: the branch runs on a non-empty value.\<close>

definition when_set :: "ustring option \<Rightarrow> (ustring \<Rightarrow> 'a) \<Rightarrow> 'a \<Rightarrow> 'a" where
  "when_set v f d = (case v of None \<Rightarrow> d | Some t \<Rightarrow> if t = [] then d else f t)"

definition info_style :: "(string \<times> string) list" where
  "info_style = [(''size'', ''sm''), (''color'', ''#666666''), (''wrap'', ''True''), (''margin'', ''xs'')]"

text \<open>The loop over \<open>movie_info\<close>: one text row for each value that is set.\<close>

fun info_rows ::
  "sdk \<Rightarrow> (ustring option \<times> ustring) list \<Rightarrow> component list \<Rightarrow> py_exc + component list"
where
  "info_rows sdk [] contents = Inr contents"
| "info_rows sdk ((info, icon) # rest) contents =
     then_do
       (when_set info
          (\<lambda>t. then_do (mk sdk (TextComponent (icon @ [32] @ t) info_style))
                 (\<lambda>c. Inr (contents @ [c])))
          (Inr contents))
       (info_rows sdk rest)"

text \<open>The body of the \<open>try\<close> block of \<open>create_movie_bubble\<close>.\<close>

definition movie_bubble_body :: "sdk \<Rightarrow> movie \<Rightarrow> py_exc + component" where
  "movie_bubble_body sdk movie =
     then_do
       (when_set (movie k_poster)
          (\<lambda>url. then_do
             (mk sdk (ImageComponent url
                [(''size'', ''full''), (''aspectRatio'', ''2:3''), (''aspectMode'', ''cover'')]))
             (\<lambda>c. Inr (Some c)))
          (Inr None))
     (\<lambda>hero.
     then_do
       (mk sdk (TextComponent (case movie k_title of None \<Rightarrow> unknown_movie | Some t \<Rightarrow> t)
          [(''weight'', ''bold''), (''size'', ''lg''), (''wrap'', ''True'')]))
     (\<lambda>title.
     then_do
       (when_set (movie k_eng_title)
          (\<lambda>t. then_do (mk sdk (TextComponent t info_style)) (\<lambda>c. Inr [title, c]))
          (Inr [title]))
     (\<lambda>contents.
     then_do
       (when_set (movie k_rating)
          (\<lambda>t. then_do
             (mk sdk (TextComponent ([0x2b50, 32] @ t)
                [(''size'', ''sm''), (''color'', ''#FFD700''), (''flex'', ''1'')]))
             (\<lambda>c. Inr [c]))
          (Inr []))
     (\<lambda>rating_box.
     then_do
       (when_set (movie k_cert)
          (\<lambda>t. then_do
             (mk sdk (TextComponent ([0x1f51e, 32] @ t)
                [(''size'', ''sm''), (''color'', ''#FF4757''), (''flex'', ''1'')]))
             (\<lambda>c. Inr (rating_box @ [c])))
          (Inr rating_box))
     (\<lambda>rating_box.
     then_do
       (if rating_box \<noteq> []
        then then_do (mk sdk (BoxComponent ''horizontal'' rating_box [(''margin'', ''sm'')]))
               (\<lambda>c. Inr (contents @ [c]))
        else Inr contents)
     (\<lambda>contents.
     then_do
       (info_rows sdk
          [(movie k_duration, [0x23f1, 0xfe0f]), (movie k_genre, [0x1f3ac]),
           (movie k_release, [0x1f4c5])]
          contents)
     (\<lambda>contents.
     then_do
       (when_set (movie k_trailer)
          (\<lambda>uri. then_do (mk sdk (URIAction [0x89c0, 0x770b, 0x9810, 0x544a, 0x7247] uri))
            (\<lambda>action. then_do
               (mk sdk (ButtonComponent action [(''style'', ''primary''), (''color'', ''#FF6B6B'')]))
            (\<lambda>button. then_do
               (mk sdk (BoxComponent ''vertical'' [button] [(''paddingAll'', ''20px'')]))
            (\<lambda>c. Inr (Some c)))))
          (Inr None))
     (\<lambda>footer.
     then_do
       (mk sdk (BoxComponent ''vertical'' contents
          [(''spacing'', ''sm''), (''paddingAll'', ''20px'')]))
     (\<lambda>body. mk sdk (BubbleContainer None hero (Some body) footer))))))))))"

text \<open>
  \<open>create_movie_bubble\<close>: the \<open>except Exception\<close> clause logs the error and returns
  \<open>None\<close>.
\<close>

definition create_movie_bubble :: "sdk \<Rightarrow> movie \<Rightarrow> component option" where
  "create_movie_bubble sdk movie =
     (case movie_bubble_body sdk movie of Inl e \<Rightarrow> None | Inr bubble \<Rightarrow> Some bubble)"

section \<open>Loading the page\<close>

text \<open>
  The browser is outside the repository.  One run of it is a record of what each call
  does: the exception it raises, if any, and for \<open>page.content()\<close> the page, already
  parsed.  \<open>start_playwright\<close> is the entry of \<open>with sync_playwright() as p\<close>,
  \<open>stop_playwright\<close> its exit, and \<open>browser_close\<close> the call \<open>browser.close()\<close> of
  the \<open>finally\<close> clause.
\<close>

record page_env =
  start_playwright :: "py_exc option"
  launch :: "py_exc option"
  new_page :: "py_exc option"
  set_extra_http_headers :: "py_exc option"
  set_viewport_size :: "py_exc option"
  goto :: "py_exc option"
  wait_for_selector :: "py_exc option"
  scroll_and_load_images :: "py_exc option"
  content :: "py_exc + node"
  browser_close :: "py_exc option"
  stop_playwright :: "py_exc option"

definition step :: "py_exc option \<Rightarrow> py_exc + unit" where
  "step r = (case r of Some e \<Rightarrow> Inl e | None \<Rightarrow> Inr ())"

text \<open>The \<open>try\<close> block of \<open>get_line_today_top_movies\<close>.\<close>

definition load_body :: "page_env \<Rightarrow> py_exc + movie list" where
  "load_body env =
     then_do (step (set_extra_http_headers env)) (\<lambda>_.
     then_do (step (set_viewport_size env)) (\<lambda>_.
     then_do (step (goto env)) (\<lambda>_.
       (case wait_for_selector env of
          Some e \<Rightarrow> (if e = PlaywrightTimeoutError then Inr [] else Inl e)
        | None \<Rightarrow>
            then_do (step (scroll_and_load_images env)) (\<lambda>_.
            then_do (content env) (\<lambda>soup.
            Inr (parse_movies_from_html soup)))))))"

text \<open>
  The body of the \<open>with\<close> statement: the result, and whether \<open>browser.close()\<close>
  returned.  \<open>launch\<close> and \<open>new_page\<close> are called before the \<open>try\<close> statement, so an
  exception of theirs leaves the browser unclosed.  The \<open>finally\<close> clause runs after the
  \<open>try\<close> block whatever its outcome, and an exception raised by \<open>browser.close()\<close>
  replaces the value returned or the exception raised by the block.
\<close>

definition browser_session :: "page_env \<Rightarrow> (py_exc + movie list) \<times> bool" where
  "browser_session env =
     (case launch env of
        Some e \<Rightarrow> (Inl e, False)
      | None \<Rightarrow>
          (case new_page env of
             Some e \<Rightarrow> (Inl e, False)
           | None \<Rightarrow>
               (case browser_close env of
                  Some e \<Rightarrow> (Inl e, False)
                | None \<Rightarrow> (load_body env, True))))"

text \<open>
  \<open>get_line_today_top_movies\<close>: the result, and whether the \<open>finally\<close> clause closed
  the browser.  The exit of the \<open>with\<close> statement runs after its body whatever the
  outcome, and an exception raised there replaces the outcome of the body.
\<close>

definition get_line_today_top_movies :: "page_env \<Rightarrow> (py_exc + movie list) \<times> bool" where
  "get_line_today_top_movies env =
     (case start_playwright env of
        Some e \<Rightarrow> (Inl e, False)
      | None \<Rightarrow>
          (case stop_playwright env of
             Some e \<Rightarrow> (Inl e, snd (browser_session env))
           | None \<Rightarrow> browser_session env))"

text \<open>\<open>[b for b in bubbles if b]\<close>: the cards that were built.\<close>

fun built :: "component option list \<Rightarrow> component list" where
  "built [] = []"
| "built (None # bs) = built bs"
| "built (Some b # bs) = b # built bs"

text \<open>The two comprehensions of \<open>get_movies\<close>: the cards of the first records.\<close>

definition movie_cards :: "sdk \<Rightarrow> movie list \<Rightarrow> component list" where
  "movie_cards sdk movie_list =
     (let bubbles = map (create_movie_bubble sdk) (take MAX_MOVIES movie_list)
      in built bubbles)"

text \<open>The alternative text U+96FB U+5F71 U+6392 U+884C U+699C (movie chart).\<close>

definition alt_text :: ustring where
  "alt_text = [0x96fb, 0x5f71, 0x6392, 0x884c, 0x699c]"

definition get_movies :: "page_env \<Rightarrow> sdk \<Rightarrow> py_exc + component option" where
  "get_movies env sdk =
     then_do (fst (get_line_today_top_movies env)) (\<lambda>movie_list.
       if movie_list = [] then Inr None
       else
         (let bubbles = movie_cards sdk movie_list
          in if bubbles \<noteq> []
             then then_do (mk sdk (CarouselContainer bubbles)) (\<lambda>carousel.
                  then_do (mk sdk (FlexSendMessage alt_text carousel))
                    (\<lambda>message. Inr (Some message)))
             else Inr None))"
section \<open>JSON\<close>

text \<open>
  The values of \<open>json.loads\<close>.  A number is kept as its text.  An object is a \<open>dict\<close>:
  its items in insertion order, each key once.
\<close>

datatype json =
    JNull
  | JBool bool
  | JNum ustring
  | JStr ustring
  | JArr "json list"
  | JObj "(ustring \<times> json) list"

text \<open>\<open>d[key] = v\<close>: a key that is present keeps its place.\<close>

fun dict_set :: "(ustring \<times> json) list \<Rightarrow> ustring \<Rightarrow> json \<Rightarrow> (ustring \<times> json) list" where
  "dict_set [] key v = [(key, v)]"
| "dict_set ((k, x) # d) key v = (if k = key then (k, v) # d else (k, x) # dict_set d key v)"

fun skip_ws :: "ustring \<Rightarrow> ustring" where
  "skip_ws [] = []"
| "skip_ws (c # cs) = (if c = 32 \<or> c = 9 \<or> c = 10 \<or> c = 13 then skip_ws cs else c # cs)"

definition hex_value :: "nat \<Rightarrow> nat option" where
  "hex_value c =
     (if 48 \<le> c \<and> c \<le> 57 then Some (c - 48)
      else if 65 \<le> c \<and> c \<le> 70 then Some (c - 55)
      else if 97 \<le> c \<and> c \<le> 102 then Some (c - 87)
      else None)"

text \<open>The value of four hexadecimal digits at the head of a text.\<close>

definition hex4 :: "ustring \<Rightarrow> nat option" where
  "hex4 s =
     (case s of
        a # b # c # d # rest \<Rightarrow>
          (case (hex_value a, hex_value b, hex_value c, hex_value d) of
             (Some w, Some x, Some y, Some z) \<Rightarrow> Some (((w * 16 + x) * 16 + y) * 16 + z)
           | _ \<Rightarrow> None)
      | _ \<Rightarrow> None)"

text \<open>A \<open>\uXXXX\<close> escape of a low surrogate at the head of a text.\<close>

definition low_surrogate :: "ustring \<Rightarrow> nat option" where
  "low_surrogate s =
     (case s of
        b # u # rest \<Rightarrow>
          (if b = 92 \<and> u = 117
           then (case hex4 rest of
                   Some l \<Rightarrow> if 0xDC00 \<le> l \<and> l \<le> 0xDFFF then Some l else None
                 | None \<Rightarrow> None)
           else None)
      | _ \<Rightarrow> None)"

definition unescape :: "nat \<Rightarrow> nat option" where
  "unescape e =
     (if e = 34 \<or> e = 92 \<or> e = 47 then Some e
      else if e = 98 then Some 8
      else if e = 102 then Some 12
      else if e = 110 then Some 10
      else if e = 114 then Some 13
      else if e = 116 then Some 9
      else None)"

text \<open>
  The text of a JSON string, read from behind its opening quote, and what follows its
  closing quote.
\<close>

function scanstring :: "ustring \<Rightarrow> ustring \<Rightarrow> (ustring \<times> ustring) option" where
  "scanstring acc [] = None"
| "scanstring acc (c # cs) =
     (if c = 34 then Some (acc, cs)
      else if c = 92 then
        (case cs of
           [] \<Rightarrow> None
         | e # es \<Rightarrow>
             if e = 117 then
               (case hex4 es of
                  None \<Rightarrow> None
                | Some u \<Rightarrow>
                    (if 0xD800 \<le> u \<and> u \<le> 0xDBFF
                     then (case low_surrogate (drop 4 es) of
                             Some l \<Rightarrow>
                               scanstring (acc @ [0x10000 + (u - 0xD800) * 1024 + (l - 0xDC00)])
                                 (drop 10 es)
                           | None \<Rightarrow> scanstring (acc @ [u]) (drop 4 es))
                     else scanstring (acc @ [u]) (drop 4 es)))
             else (case unescape e of
                     None \<Rightarrow> None
                   | Some x \<Rightarrow> scanstring (acc @ [x]) es))
      else if c < 32 then None
      else scanstring (acc @ [c]) cs)"
  by pat_completeness auto
termination
  by (relation "measure (\<lambda>(acc, s). length s)") auto

definition is_digit :: "nat \<Rightarrow> bool" where
  "is_digit c \<longleftrightarrow> 48 \<le> c \<and> c \<le> 57"

text \<open>
  The text of a number at the head of a text, and what follows it:
  \<open>-?(0|[1-9][0-9]*)(\.[0-9]+)?([eE][-+]?[0-9]+)?\<close>.
\<close>

definition scan_int :: "ustring \<Rightarrow> (ustring \<times> ustring) option" where
  "scan_int s =
     (case s of
        [] \<Rightarrow> None
      | c # cs \<Rightarrow>
          if c = 48 then Some ([c], cs)
          else if 49 \<le> c \<and> c \<le> 57 then Some (c # takeWhile is_digit cs, dropWhile is_digit cs)
          else None)"

definition scan_frac :: "ustring \<Rightarrow> ustring \<times> ustring" where
  "scan_frac s =
     (case s of
        dot # d # ds \<Rightarrow>
          if dot = 46 \<and> is_digit d
          then (dot # d # takeWhile is_digit ds, dropWhile is_digit ds)
          else ([], s)
      | _ \<Rightarrow> ([], s))"

definition scan_exp :: "ustring \<Rightarrow> ustring \<times> ustring" where
  "scan_exp s =
     (case s of
        [] \<Rightarrow> ([], s)
      | e # s1 \<Rightarrow>
          if e = 101 \<or> e = 69
          then (let sign = (case s1 of [] \<Rightarrow> [] | x # _ \<Rightarrow> if x = 45 \<or> x = 43 then [x] else []);
                    s2 = drop (length sign) s1;
                    digits = takeWhile is_digit s2
                in if digits = [] then ([], s)
                   else (e # sign @ digits, dropWhile is_digit s2))
          else ([], s))"

definition scan_number :: "ustring \<Rightarrow> (ustring \<times> ustring) option" where
  "scan_number s =
     (let (minus, s1) = (case s of [] \<Rightarrow> ([], s) | c # cs \<Rightarrow> if c = 45 then ([c], cs) else ([], s))
      in case scan_int s1 of
           None \<Rightarrow> None
         | Some (integer, s2) \<Rightarrow>
             (let (frac, s3) = scan_frac s2; (ex, s4) = scan_exp s3
              in Some (minus @ integer @ frac @ ex, s4)))"

text \<open>A constant or a number at the head of a text.\<close>

definition scan_atom :: "ustring \<Rightarrow> (json \<times> ustring) option" where
  "scan_atom s =
     (if startswith s (asc ''null'') then Some (JNull, drop 4 s)
      else if startswith s (asc ''true'') then Some (JBool True, drop 4 s)
      else if startswith s (asc ''false'') then Some (JBool False, drop 5 s)
      else if startswith s (asc ''NaN'') then Some (JNum (asc ''NaN''), drop 3 s)
      else if startswith s (asc ''Infinity'') then Some (JNum (asc ''Infinity''), drop 8 s)
      else if startswith s (asc ''-Infinity'') then Some (JNum (asc ''-Infinity''), drop 9 s)
      else map_option (\<lambda>(t, rest). (JNum t, rest)) (scan_number s))"

lemma skip_ws_length: "length (skip_ws s) \<le> length s"
  by (induction s) auto

lemma skip_ws_Cons: "skip_ws s = c # cs \<Longrightarrow> length cs < length s"
  using skip_ws_length[of s] by simp

lemma scanstring_length: "scanstring acc s = Some (t, r) \<Longrightarrow> length r < length s"
proof (induction "length s" arbitrary: acc s rule: less_induct)
  case less
  have IH: "\<And>acc' s'. scanstring acc' s' = Some (t, r) \<Longrightarrow> length s' < length s \<Longrightarrow>
      length r < length s'"
    using less.hyps by blast
  show ?case
  proof (cases s)
    case Nil
    then show ?thesis using less.prems by simp
  next
    case (Cons c cs)
    from less.prems show ?thesis unfolding Cons
      apply (auto split: if_splits option.splits list.splits)
          apply (drule IH; simp add: Cons)+
      done
  qed
qed

text \<open>
  A JSON value at the head of a text, and what follows it.  The members of an object are
  read from the quote of a key, the elements of an array from a value.
\<close>

function (sequential) parse_value :: "ustring \<Rightarrow> (json \<times> ustring) option"
  and parse_members :: "(ustring \<times> json) list \<Rightarrow> ustring \<Rightarrow> ((ustring \<times> json) list \<times> ustring) option"
  and parse_elements :: "json list \<Rightarrow> ustring \<Rightarrow> (json list \<times> ustring) option"
where
  "parse_value [] = None"
| "parse_value (c # cs) =
     (if c = 34 then map_option (\<lambda>(t, rest). (JStr t, rest)) (scanstring [] cs)
      else if c = 123 then
        (case skip_ws cs of
           [] \<Rightarrow> None
         | d # ds \<Rightarrow>
             if d = 125 then Some (JObj [], ds)
             else map_option (\<lambda>(kvs, rest). (JObj kvs, rest)) (parse_members [] (d # ds)))
      else if c = 91 then
        (case skip_ws cs of
           [] \<Rightarrow> None
         | d # ds \<Rightarrow>
             if d = 93 then Some (JArr [], ds)
             else map_option (\<lambda>(vs, rest). (JArr vs, rest)) (parse_elements [] (d # ds)))
      else scan_atom (c # cs))"
| "parse_members acc [] = None"
| "parse_members acc (q # s1) =
     (if q \<noteq> 34 then None
      else
        (case scanstring [] s1 of
           None \<Rightarrow> None
         | Some (key, s2) \<Rightarrow>
             (case skip_ws s2 of
                [] \<Rightarrow> None
              | colon # s3 \<Rightarrow>
                  if colon \<noteq> 58 then None
                  else
                    (case parse_value (skip_ws s3) of
                       None \<Rightarrow> None
                     | Some (v, s4) \<Rightarrow>
                         if length s4 < length s3
                         then
                           (case skip_ws s4 of
                              [] \<Rightarrow> None
                            | e # s5 \<Rightarrow>
                                if e = 125 then Some (dict_set acc key v, s5)
                                else if e = 44 then parse_members (dict_set acc key v) (skip_ws s5)
                                else None)
                         else None))))"
| "parse_elements acc s =
     (case parse_value s of
        None \<Rightarrow> None
      | Some (v, s1) \<Rightarrow>
          if length s1 < length s
          then
            (case skip_ws s1 of
               [] \<Rightarrow> None
             | e # s2 \<Rightarrow>
                 if e = 93 then Some (acc @ [v], s2)
                 else if e = 44 then parse_elements (acc @ [v]) (skip_ws s2)
                 else None)
          else None)"
  by pat_completeness auto
termination
proof (relation "measure (\<lambda>x. case x of
      Inl s \<Rightarrow> 2 * length s
    | Inr (Inl (acc, s)) \<Rightarrow> 2 * length s
    | Inr (Inr (acc, s)) \<Rightarrow> 2 * length s + 1)", goal_cases)
  case 1
  then show ?case by simp
next
  case (2 c cs d ds)
  then show ?case using skip_ws_Cons[of cs d ds] by simp
next
  case (3 c cs d ds)
  then show ?case using skip_ws_Cons[of cs d ds] by simp
next
  case (4 acc q s1 key_s2 key s2 colon s3)
  then show ?case
    using scanstring_length[of "[]" s1 key s2] skip_ws_Cons[of s2 colon s3] skip_ws_length[of s3]
    by simp
next
  case (5 acc q s1 key_s2 key s2 colon s3 vs4 v s4 e s5)
  then show ?case
    using scanstring_length[of "[]" s1 key s2] skip_ws_Cons[of s2 colon s3] skip_ws_Cons[of s4 e s5]
      skip_ws_length[of s5]
    by simp
next
  case (6 acc s)
  then show ?case by simp
next
  case (7 acc s vs1 v s1 e s2)
  then show ?case using skip_ws_Cons[of s1 e s2] skip_ws_length[of s2] by simp
qed

text \<open>
  \<open>json.loads\<close> on a \<open>str\<close>.  The limits of the interpreter on the depth of nesting and on
  the length of an integer are not modelled.
\<close>

definition json_loads :: "ustring \<Rightarrow> py_exc + json" where
  "json_loads s =
     (if startswith s [0xfeff] then Inl JSONDecodeError
      else
        (case parse_value (skip_ws s) of
           None \<Rightarrow> Inl JSONDecodeError
         | Some (v, rest) \<Rightarrow> if skip_ws rest = [] then Inr v else Inl JSONDecodeError))"

section \<open>Vocabulary lesson\<close>

text \<open>
  What \<open>chat_with_groq\<close> returned: a \<open>str\<close>, an object with a \<open>text\<close> attribute, an
  object with a \<open>json\<close> method (and what the call gives), or anything else.
\<close>

datatype response =
    RespStr ustring
  | RespText ustring
  | RespJson "py_exc + json"
  | RespOther

text \<open>\<open>(\{.*\})\<close>, compiled with \<open>re.DOTALL\<close>.\<close>

definition json_rx :: rx where
  "json_rx = Grp (Cat (Sym (CLit 123)) (Cat (Star CAny) (Sym (CLit 125))))"

text \<open>The inner \<open>try\<close> of \<open>get_english_word\<close> on a text.\<close>

definition recover_json :: "ustring \<Rightarrow> py_exc + json" where
  "recover_json text =
     (case json_loads text of
        Inr word_data \<Rightarrow> Inr word_data
      | Inl e \<Rightarrow>
          if e = JSONDecodeError
          then (case search json_rx text of
                  Some json_str \<Rightarrow> json_loads json_str
                | None \<Rightarrow> Inl ValueError)
          else Inl e)"

definition fallback_word :: "(ustring \<times> json) list" where
  "fallback_word =
     [(asc ''word'', JStr (asc ''fallback'')),
      (asc ''pronunciation'',
         JStr [0x2f, 0x2c8, 0x66, 0x254, 0x2d0, 0x6c, 0x62, 0xe6, 0x6b, 0x2f]),
      (asc ''part_of_speech'', JStr (asc ''noun'')),
      (asc ''definition_en'',
         JStr (asc ''something or someone to turn to in case of failure or emergency'')),
      (asc ''definition_zh'',
         JStr [0x5099, 0x7528, 0x65b9, 0x6848, 0x3001, 0x5f8c, 0x5099, 0x9078, 0x64c7]),
      (asc ''example_sentence'',
         JStr (asc ''We need a fallback plan in case this doesn't work.'')),
      (asc ''example_translation'',
         JStr [0x6211, 0x5011, 0x9700, 0x8981, 0x4e00, 0x500b, 0x5099, 0x7528, 0x8a08, 0x5283,
               0xff0c, 0x4ee5, 0x9632, 0x9019, 0x500b, 0x4e0d, 0x8d77, 0x4f5c, 0x7528, 0x3002])]"

definition required_fields :: "ustring list" where
  "required_fields =
     [asc ''word'', asc ''pronunciation'', asc ''part_of_speech'', asc ''definition_en'',
      asc ''definition_zh'', asc ''example_sentence'', asc ''example_translation'']"

text \<open>The loop over the required fields, on a \<open>dict\<close>.\<close>

fun fill_required :: "ustring list \<Rightarrow> (ustring \<times> json) list \<Rightarrow> (ustring \<times> json) list" where
  "fill_required [] word_data = word_data"
| "fill_required (field # others) word_data =
     fill_required others
       (if map_of word_data field = None then word_data @ [(field, JStr [])] else word_data)"

text \<open>
  \<open>get_english_word\<close> up to the call of \<open>create_flex_bubble\<close>: the record that is
  rendered.  The outer \<open>except Exception\<close> replaces any failure to read the response by
  the fallback record.  On a value that is not a \<open>dict\<close>, the loop over the required
  fields or the subscripts of the rendering raise \<open>TypeError\<close>, outside any \<open>try\<close>.
\<close>

definition get_english_word :: "response \<Rightarrow> py_exc + (ustring \<times> json) list" where
  "get_english_word response =
     (let parsed =
            (case response of
               RespStr text \<Rightarrow> recover_json text
             | RespText text \<Rightarrow> recover_json text
             | RespJson r \<Rightarrow> r
             | RespOther \<Rightarrow> Inl TypeError);
          word_data = (case parsed of Inl e \<Rightarrow> JObj fallback_word | Inr v \<Rightarrow> v)
      in case word_data of
           JObj d \<Rightarrow> Inr (fill_required required_fields d)
         | _ \<Rightarrow> Inl TypeError)"

section \<open>Audio links\<close>

text \<open>The UTF-8 bytes of a code point; a surrogate has none.\<close>

definition utf8_char :: "nat \<Rightarrow> nat list option" where
  "utf8_char c =
     (if c < 0x80 then Some [c]
      else if c < 0x800 then Some [0xC0 + c div 64, 0x80 + c mod 64]
      else if c < 0x10000 then
        (if 0xD800 \<le> c \<and> c \<le> 0xDFFF then None
         else Some [0xE0 + c div 4096, 0x80 + c div 64 mod 64, 0x80 + c mod 64])
      else if c < 0x110000 then
        Some [0xF0 + c div 262144, 0x80 + c div 4096 mod 64, 0x80 + c div 64 mod 64,
              0x80 + c mod 64]
      else None)"

fun utf8_encode :: "ustring \<Rightarrow> nat list option" where
  "utf8_encode [] = Some []"
| "utf8_encode (c # cs) =
     (case utf8_char c of
        None \<Rightarrow> None
      | Some bs \<Rightarrow> map_option (\<lambda>rest. bs @ rest) (utf8_encode cs))"

text \<open>The bytes \<open>urllib.parse.quote\<close> never escapes, besides \<open>/\<close>.\<close>

definition always_safe :: "nat \<Rightarrow> bool" where
  "always_safe b \<longleftrightarrow>
     (65 \<le> b \<and> b \<le> 90) \<or> (97 \<le> b \<and> b \<le> 122) \<or> (48 \<le> b \<and> b \<le> 57) \<or>
     b = 95 \<or> b = 46 \<or> b = 45 \<or> b = 126"

definition hex_digit :: "nat \<Rightarrow> nat" where
  "hex_digit d = (if d < 10 then 48 + d else 55 + d)"

definition quote_byte :: "nat \<Rightarrow> ustring" where
  "quote_byte b =
     (if always_safe b \<or> b = 47 then [b] else [37, hex_digit (b div 16), hex_digit (b mod 16)])"

text \<open>\<open>urllib.parse.quote(string)\<close> with its defaults: UTF-8, strict, \<open>safe='/'\<close>.\<close>

definition quote :: "ustring \<Rightarrow> py_exc + ustring" where
  "quote string =
     (if string = [] then Inr string
      else (case utf8_encode string of
              None \<Rightarrow> Inl UnicodeEncodeError
            | Some bs \<Rightarrow> Inr (concat (map quote_byte bs))))"

definition tts_prefix :: ustring where
  "tts_prefix = asc ''https://translate.google.com/translate_tts?ie=UTF-8&tl=en&client=tw-ob&q=''"

definition generate_audio_url :: "ustring \<Rightarrow> py_exc + ustring" where
  "generate_audio_url text =
     (if text = [] then Inr []
      else then_do (quote text) (\<lambda>encoded_text. Inr (tts_prefix @ encoded_text)))"

section \<open>What a pattern matches\<close>

text \<open>
  The texts a pattern matches as a whole, independent of the search order of the
  matcher.  The properties of the extracted fields are stated against it.
\<close>

fun matches :: "rx \<Rightarrow> ustring \<Rightarrow> bool" where
  "matches (Sym c) w = (case w of [x] \<Rightarrow> cmatch c x | _ \<Rightarrow> False)"
| "matches (Cat a b) w =
     list_ex (\<lambda>i. matches a (take i w) \<and> matches b (drop i w)) [0..<Suc (length w)]"
| "matches (Alt a b) w = (matches a w \<or> matches b w)"
| "matches (Opt c) w = (case w of [] \<Rightarrow> True | [x] \<Rightarrow> cmatch c x | _ \<Rightarrow> False)"
| "matches (Star c) w = list_all (cmatch c) w"
| "matches (Plus c) w = (w \<noteq> [] \<and> list_all (cmatch c) w)"
| "matches (LazyStar c) w = list_all (cmatch c) w"
| "matches (Grp a) w = matches a w"

text \<open>
  The bytes that a percent-encoded text stands for: \<open>%XY\<close> is the byte with the
  hexadecimal digits \<open>X\<close> and \<open>Y\<close>, any other character is its own byte.
\<close>

fun percent_decode :: "ustring \<Rightarrow> nat list option" where
  "percent_decode [] = Some []"
| "percent_decode (c # cs) =
     (if c = 37
      then (case cs of
              h # l # rest \<Rightarrow>
                (case (hex_value h, hex_value l) of
                   (Some a, Some b) \<Rightarrow> map_option (\<lambda>bs. (16 * a + b) # bs) (percent_decode rest)
                 | _ \<Rightarrow> None)
            | _ \<Rightarrow> None)
      else map_option (\<lambda>bs. c # bs) (percent_decode cs))"

section \<open>Poster styles\<close>

text \<open>The three patterns of \<open>extract_image_url\<close> by name; the third is \<open>url_rx\<close>.\<close>

definition bg_image_rx :: rx where
  "bg_image_rx = lit_i (asc ''background-image:'') (Cat (Star CSpace) url_rx)"

definition bg_rx :: rx where
  "bg_rx = lit_i (asc ''background:'') (Cat (Star CSpace) url_rx)"





section \<open>Sample inputs\<close>

text \<open>
  A page with two entries.  The first has no title element.  The second has a title and
  a status text: 2 hours 15 minutes, released 3 weeks ago.
\<close>

definition sample_status :: node where
  "sample_status =
        Elem ''div'' [''detailListItem-status''] []
          [Text ([50, 0x5c0f, 0x6642, 49, 53, 0x5206]), Text [32],
           Elem ''span'' [] [] [Text ([0x4e0a, 0x6620, 51, 0x9031])]]"

definition entry_titled :: node where
  "entry_titled =
     Elem ''li'' [''detailList-item''] []
       [Elem ''h2'' [''detailListItem-title''] [] [Text (asc '' Dune '')],
        sample_status]"

definition entry_untitled :: node where
  "entry_untitled =
     Elem ''li'' [''detailList-item''] []
       [Elem ''h3'' [''detailListItem-engTitle''] [] [Text (asc ''Nameless'')]]"

definition sample_soup :: node where
  "sample_soup = Elem ''ul'' [] [] [entry_untitled, entry_titled]"

definition quiet_env :: "node \<Rightarrow> page_env" where
  "quiet_env soup =
     \<lparr>start_playwright = None, launch = None, new_page = None,
      set_extra_http_headers = None, set_viewport_size = None,
      goto = None, wait_for_selector = None, scroll_and_load_images = None,
      content = Inr soup, browser_close = None, stop_playwright = None\<rparr>"

text \<open>An SDK whose constructors never raise, and one whose constructors always raise.\<close>

definition quiet_sdk :: sdk where
  "quiet_sdk = (\<lambda>c. None)"

definition failing_sdk :: sdk where
  "failing_sdk = (\<lambda>c. Some OtherException)"

text \<open>A run of the browser in which the wait for the list of entries times out.\<close>

definition timeout_env :: page_env where
  "timeout_env =
     \<lparr>start_playwright = None, launch = None, new_page = None,
      set_extra_http_headers = None, set_viewport_size = None,
      goto = None, wait_for_selector = Some PlaywrightTimeoutError,
      scroll_and_load_images = None, content = Inl OtherException,
      browser_close = None, stop_playwright = None\<rparr>"

text \<open>
  A run in which the wait for the list of entries times out and \<open>browser.close()\<close> then
  raises.
\<close>

definition close_fails_env :: page_env where
  "close_fails_env =
     \<lparr>start_playwright = None, launch = None, new_page = None,
      set_extra_http_headers = None, set_viewport_size = None,
      goto = None, wait_for_selector = Some PlaywrightTimeoutError,
      scroll_and_load_images = None, content = Inl OtherException,
      browser_close = Some OtherException, stop_playwright = None\<rparr>"

text \<open>A page of fifteen entries, titled A to O.\<close>

definition lettered_entry :: "nat \<Rightarrow> node" where
  "lettered_entry n =
     Elem ''li'' [''detailList-item''] []
       [Elem ''h2'' [''detailListItem-title''] [] [Text [65 + n]]]"

definition fifteen_soup :: node where
  "fifteen_soup = Elem ''ul'' [] [] (map lettered_entry [0..<15])"


text \<open>An SDK that raises on the text \<open>B\<close>, and the card of a lettered entry.\<close>

definition lettered_card :: "nat \<Rightarrow> component" where
  "lettered_card n = BubbleContainer None None
       (Some (BoxComponent ''vertical''
          [TextComponent [65 + n] [(''weight'', ''bold''), (''size'', ''lg''), (''wrap'', ''True'')]]
          [(''spacing'', ''sm''), (''paddingAll'', ''20px'')])) None"

definition picky_sdk :: sdk where
  "picky_sdk = (\<lambda>c. case c of TextComponent t style \<Rightarrow> if t = [66] then Some ValueError else None
                 | _ \<Rightarrow> None)"



text \<open>A JSON object with the seven required fields, as text and as a value.\<close>

definition sample_object :: ustring where
  "sample_object = asc ''{\"word\":\"x\",\"pronunciation\":\"p\",\"part_of_speech\":\"n\",\"definition_en\":\"e\",\"definition_zh\":\"z\",\"example_sentence\":\"s\",\"example_translation\":\"t\"}''"

definition sample_word :: "(ustring \<times> json) list" where
  "sample_word =
     [(asc ''word'', JStr (asc ''x'')), (asc ''pronunciation'', JStr (asc ''p'')),
      (asc ''part_of_speech'', JStr (asc ''n'')), (asc ''definition_en'', JStr (asc ''e'')),
      (asc ''definition_zh'', JStr (asc ''z'')), (asc ''example_sentence'', JStr (asc ''s'')),
      (asc ''example_translation'', JStr (asc ''t''))]"

section \<open>Properties\<close>

section \<open>The matcher finds what the pattern matches\<close>

lemma matches_Sym: "matches (Sym c) w \<longleftrightarrow> (\<exists>x. w = [x] \<and> cmatch c x)"
  by (auto split: list.splits)

lemma matches_Opt: "matches (Opt c) w \<longleftrightarrow> w = [] \<or> (\<exists>x. w = [x] \<and> cmatch c x)"
  by (auto split: list.splits)

lemma matches_Cat: "matches (Cat a b) w \<longleftrightarrow> (\<exists>u v. w = u @ v \<and> matches a u \<and> matches b v)"
proof
  assume "matches (Cat a b) w"
  then obtain i where "matches a (take i w)" "matches b (drop i w)"
    unfolding matches.simps list_ex_iff by blast
  then show "\<exists>u v. w = u @ v \<and> matches a u \<and> matches b v"
    by (metis append_take_drop_id)
next
  assume "\<exists>u v. w = u @ v \<and> matches a u \<and> matches b v"
  then obtain u v where w: "w = u @ v" and m: "matches a u" "matches b v" by blast
  have "length u \<in> set [0..<Suc (length w)]" using w by simp
  moreover have "matches a (take (length u) w) \<and> matches b (drop (length u) w)"
    using w m by simp
  ultimately show "matches (Cat a b) w"
    unfolding matches.simps list_ex_iff by blast
qed

declare matches.simps(2) [simp del]

lemma star_greedy_sound:
  "star_greedy c s k = Some res \<Longrightarrow>
     \<exists>w s'. s = w @ s' \<and> list_all (cmatch c) w \<and> k s' = Some res"
proof (induction s)
  case Nil
  then show ?case by simp
next
  case (Cons x xs)
  show ?case
  proof (cases "cmatch c x \<and> star_greedy c xs k = Some res")
    case True
    then obtain w s' where "xs = w @ s'" "list_all (cmatch c) w" "k s' = Some res"
      using Cons.IH by blast
    then have "x # xs = (x # w) @ s' \<and> list_all (cmatch c) (x # w) \<and> k s' = Some res"
      using True by simp
    then show ?thesis by blast
  next
    case False
    then have "k (x # xs) = Some res"
      using Cons.prems by (auto split: if_splits option.splits)
    then have "x # xs = [] @ (x # xs) \<and> list_all (cmatch c) [] \<and> k (x # xs) = Some res"
      by simp
    then show ?thesis by blast
  qed
qed

lemma star_lazy_sound:
  "star_lazy c s k = Some res \<Longrightarrow>
     \<exists>w s'. s = w @ s' \<and> list_all (cmatch c) w \<and> k s' = Some res"
proof (induction s)
  case Nil
  then show ?case by simp
next
  case (Cons x xs)
  show ?case
  proof (cases "k (x # xs)")
    case (Some r)
    then have "x # xs = [] @ (x # xs) \<and> list_all (cmatch c) [] \<and> k (x # xs) = Some res"
      using Cons.prems by simp
    then show ?thesis by blast
  next
    case None
    then have cx: "cmatch c x" and "star_lazy c xs k = Some res"
      using Cons.prems by (auto split: if_splits)
    then obtain w s' where "xs = w @ s'" "list_all (cmatch c) w" "k s' = Some res"
      using Cons.IH by blast
    then have "x # xs = (x # w) @ s' \<and> list_all (cmatch c) (x # w) \<and> k s' = Some res"
      using cx by simp
    then show ?thesis by blast
  qed
qed

lemma rmatch_sound:
  "rmatch r s g k = Some res \<Longrightarrow> \<exists>w s' g'. s = w @ s' \<and> matches r w \<and> k s' g' = Some res"
proof (induction r arbitrary: s g k)
  case (Sym c)
  then obtain x xs where "s = x # xs" "cmatch c x" "k xs g = Some res"
    by (auto split: list.splits if_splits)
  then have "s = [x] @ xs \<and> matches (Sym c) [x] \<and> k xs g = Some res" by simp
  then show ?case by blast
next
  case (Cat a b)
  from Cat.prems obtain u s1 g1 where
    u: "s = u @ s1" "matches a u" "rmatch b s1 g1 k = Some res"
    using Cat.IH(1)[of s g "\<lambda>s' g'. rmatch b s' g' k"] by auto
  then obtain v s' g' where v: "s1 = v @ s'" "matches b v" "k s' g' = Some res"
    using Cat.IH(2) by blast
  have "s = (u @ v) @ s' \<and> matches (Cat a b) (u @ v) \<and> k s' g' = Some res"
    using u v matches_Cat by auto
  then show ?case by blast
next
  case (Alt a b)
  then have "rmatch a s g k = Some res \<or> rmatch b s g k = Some res"
    by (auto split: option.splits)
  then show ?case using Alt.IH by (metis matches.simps(3))
next
  case (Opt c)
  show ?case
  proof (cases "\<exists>x xs. s = x # xs \<and> cmatch c x \<and> k xs g = Some res")
    case True
    then obtain x xs where "s = [x] @ xs \<and> matches (Opt c) [x] \<and> k xs g = Some res" by auto
    then show ?thesis by blast
  next
    case False
    then have "k s g = Some res"
      using Opt by (auto split: list.splits if_splits option.splits)
    then have "s = [] @ s \<and> matches (Opt c) [] \<and> k s g = Some res" by simp
    then show ?thesis by blast
  qed
next
  case (Star c)
  then show ?case using star_greedy_sound[of c s "\<lambda>s'. k s' g" res] by auto
next
  case (Plus c)
  then obtain x xs where x: "s = x # xs" "cmatch c x" "star_greedy c xs (\<lambda>s'. k s' g) = Some res"
    by (auto split: list.splits if_splits)
  then obtain w s' where "xs = w @ s'" "list_all (cmatch c) w" "k s' g = Some res"
    using star_greedy_sound[of c xs "\<lambda>s'. k s' g" res] by auto
  then have "s = (x # w) @ s' \<and> matches (Plus c) (x # w) \<and> k s' g = Some res"
    using x by simp
  then show ?case by blast
next
  case (LazyStar c)
  then show ?case using star_lazy_sound[of c s "\<lambda>s'. k s' g" res] by auto
next
  case (Grp a)
  then show ?case
    using Grp.IH[of s g "\<lambda>s' g'. k s' (Some (take (length s - length s') s))"] by auto
qed

lemma star_greedy_complete:
  "list_all (cmatch c) w \<Longrightarrow> k s' \<noteq> None \<Longrightarrow> star_greedy c (w @ s') k \<noteq> None"
proof (induction w)
  case Nil
  then show ?case by (cases s') (auto split: option.splits)
next
  case (Cons a w)
  then show ?case by (auto split: option.splits)
qed

lemma star_lazy_complete:
  "list_all (cmatch c) w \<Longrightarrow> k s' \<noteq> None \<Longrightarrow> star_lazy c (w @ s') k \<noteq> None"
proof (induction w)
  case Nil
  then show ?case by (cases s') (auto split: option.splits)
next
  case (Cons a w)
  then show ?case by (auto split: option.splits)
qed

lemma rmatch_complete:
  "matches r w \<Longrightarrow> (\<And>g'. k s' g' \<noteq> None) \<Longrightarrow> rmatch r (w @ s') g k \<noteq> None"
proof (induction r arbitrary: w s' g k)
  case (Sym c)
  then obtain x where "w = [x]" "cmatch c x" using matches_Sym by blast
  then show ?case using Sym.prems(2) by simp
next
  case (Cat a b)
  from Cat.prems(1) obtain u v where uv: "w = u @ v" "matches a u" "matches b v"
    using matches_Cat by blast
  have "\<And>g'. rmatch b (v @ s') g' k \<noteq> None"
    using Cat.IH(2)[OF uv(3)] Cat.prems(2) by blast
  then have "rmatch a (u @ (v @ s')) g (\<lambda>s1 g1. rmatch b s1 g1 k) \<noteq> None"
    using Cat.IH(1)[OF uv(2), of "\<lambda>s1 g1. rmatch b s1 g1 k" "v @ s'"] by blast
  then show ?case using uv by simp
next
  case (Alt a b)
  show ?case
  proof (cases "rmatch a (w @ s') g k")
    case (Some r)
    then show ?thesis by simp
  next
    case None
    then have "\<not> matches a w" using Alt.IH(1)[of w k s' g] Alt.prems(2) by blast
    then have "matches b w" using Alt.prems(1) by simp
    then show ?thesis using None Alt.IH(2)[of w k s' g] Alt.prems(2) by simp
  qed
next
  case (Opt c)
  from Opt.prems(1) consider "w = []" | x where "w = [x]" "cmatch c x"
    using matches_Opt by blast
  then show ?case
  proof cases
    case 1
    then show ?thesis using Opt.prems(2)[of g] by (auto split: option.splits)
  next
    case 2
    then show ?thesis using Opt.prems(2)[of g] by (auto split: option.splits)
  qed
next
  case (Star c)
  then show ?case using star_greedy_complete[of c w "\<lambda>s'. k s' g" s'] by simp
next
  case (Plus c)
  then obtain x xs where "w = x # xs" "cmatch c x" "list_all (cmatch c) xs"
    by (cases w) auto
  then show ?case
    using star_greedy_complete[of c xs "\<lambda>s'. k s' g" s'] Plus.prems(2) by simp
next
  case (LazyStar c)
  then show ?case using star_lazy_complete[of c w "\<lambda>s'. k s' g" s'] by simp
next
  case (Grp a)
  then show ?case by simp
qed

lemma match_here_complete: "matches r w \<Longrightarrow> match_here r (w @ s') \<noteq> None"
  unfolding match_here_def by (rule rmatch_complete) simp_all

lemma search_None: "search r t = None \<Longrightarrow> i \<le> length t \<Longrightarrow> match_here r (drop i t) = None"
proof (induction t arbitrary: i)
  case Nil
  then show ?case by simp
next
  case (Cons x xs)
  show ?case
  proof (cases i)
    case 0
    then show ?thesis using Cons.prems by (simp split: option.splits)
  next
    case (Suc j)
    then show ?thesis using Cons by (simp split: option.splits)
  qed
qed

lemma search_Some:
  "search r t = Some res \<Longrightarrow>
     \<exists>i\<le>length t. match_here r (drop i t) = Some res \<and>
        (\<forall>j<i. match_here r (drop j t) = None)"
proof (induction t)
  case Nil
  then show ?case by simp
next
  case (Cons x xs)
  show ?case
  proof (cases "match_here r (x # xs)")
    case (Some w)
    then have "match_here r (drop 0 (x # xs)) = Some res" using Cons.prems by simp
    then show ?thesis by blast
  next
    case None
    then have "search r xs = Some res" using Cons.prems by simp
    then obtain i where i: "i \<le> length xs" "match_here r (drop i xs) = Some res"
      "\<forall>j<i. match_here r (drop j xs) = None" using Cons.IH by blast
    have "\<forall>j<Suc i. match_here r (drop j (x # xs)) = None"
    proof (intro allI impI)
      fix j assume "j < Suc i"
      then show "match_here r (drop j (x # xs)) = None"
        using None i(3) by (cases j) auto
    qed
    then have "Suc i \<le> length (x # xs) \<and> match_here r (drop (Suc i) (x # xs)) = Some res \<and>
        (\<forall>j<Suc i. match_here r (drop j (x # xs)) = None)" using i by simp
    then show ?thesis by blast
  qed
qed

lemma search_None_no_occurrence:
  assumes "search r t = None"
  shows "\<not> (\<exists>pre w post. t = pre @ w @ post \<and> matches r w)"
proof
  assume "\<exists>pre w post. t = pre @ w @ post \<and> matches r w"
  then obtain pre w post where t: "t = pre @ w @ post" and m: "matches r w" by blast
  have "match_here r (drop (length pre) t) = None"
    using search_None[OF assms, of "length pre"] t by simp
  then show False using match_here_complete[OF m, of post] t by simp
qed

lemma search_Some_leftmost:
  assumes "search r t = Some res"
  shows "\<exists>pre rest. t = pre @ rest \<and> match_here r rest = Some res \<and>
           (\<forall>pre' w' post'. t = pre' @ w' @ post' \<and> matches r w' \<longrightarrow> length pre \<le> length pre')"
proof -
  obtain i where i: "i \<le> length t" "match_here r (drop i t) = Some res"
      "\<forall>j<i. match_here r (drop j t) = None" using search_Some[OF assms] by blast
  have "\<forall>pre' w' post'. t = pre' @ w' @ post' \<and> matches r w' \<longrightarrow> length (take i t) \<le> length pre'"
  proof (intro allI impI)
    fix pre' w' post' assume a: "t = pre' @ w' @ post' \<and> matches r w'"
    show "length (take i t) \<le> length pre'"
    proof (rule ccontr)
      assume "\<not> length (take i t) \<le> length pre'"
      then have "length pre' < i" using i(1) by simp
      then have "match_here r (drop (length pre') t) = None" using i(3) by blast
      then show False using match_here_complete[of r w' post'] a by simp
    qed
  qed
  moreover have "t = take i t @ drop i t" by simp
  ultimately show ?thesis using i(2) by blast
qed

lemma match_here_Grp:
  assumes "match_here (Grp a) s = Some res"
  shows "\<exists>s'. s = res @ s' \<and> matches a res"
proof -
  from assms have "rmatch a s None (\<lambda>s' g'. Some (take (length s - length s') s)) = Some res"
    by (simp add: match_here_def)
  then obtain w s' where "s = w @ s'" "matches a w" "take (length s - length s') s = res"
    using rmatch_sound[of a s None "\<lambda>s' g'. Some (take (length s - length s') s)" res] by auto
  then show ?thesis by auto
qed

lemma match_here_release:
  assumes "match_here release_rx s = Some g"
  shows "\<exists>s'. s = ([0x4e0a, 0x6620] @ g) @ s' \<and> matches release_rx ([0x4e0a, 0x6620] @ g)"
proof -
  let ?Y = "Alt (Cat (Plus CDigit) (Sym (CLit 0x9031))) (Cat (Plus CDigit) (Sym (CLit 0x5929)))"
  from assms obtain s2 where s: "s = 0x4e0a # 0x6620 # s2"
    and r: "rmatch ?Y s2 None (\<lambda>s' g'. Some (take (length s2 - length s') s2)) = Some g"
    by (auto simp: match_here_def release_rx_def split: list.splits if_splits)
  obtain w s' where w: "s2 = w @ s'" "matches ?Y w" "take (length s2 - length s') s2 = g"
    using rmatch_sound[OF r] by auto
  then have g: "g = w" by simp
  have "matches (Sym (CLit 0x4e0a)) [0x4e0a]" "matches (Sym (CLit 0x6620)) [0x6620]" by simp_all
  then have "matches release_rx ([0x4e0a] @ [0x6620] @ g)"
    unfolding release_rx_def lit.simps matches_Cat matches.simps(8) using w(2) g by blast
  then show ?thesis using s w g by simp
qed

section \<open>The fields of a record\<close>

lemmas key_defs = k_poster_def k_title_def k_eng_title_def k_rating_def k_cert_def
  k_duration_def k_genre_def k_release_def k_trailer_def

lemma key_distinct:
  "k_poster \<noteq> k_title" "k_poster \<noteq> k_eng_title" "k_poster \<noteq> k_rating"
  "k_poster \<noteq> k_cert" "k_poster \<noteq> k_duration" "k_poster \<noteq> k_genre"
  "k_poster \<noteq> k_release" "k_poster \<noteq> k_trailer" "k_title \<noteq> k_poster"
  "k_title \<noteq> k_eng_title" "k_title \<noteq> k_rating" "k_title \<noteq> k_cert"
  "k_title \<noteq> k_duration" "k_title \<noteq> k_genre" "k_title \<noteq> k_release"
  "k_title \<noteq> k_trailer" "k_eng_title \<noteq> k_poster"
  "k_eng_title \<noteq> k_title" "k_eng_title \<noteq> k_rating"
  "k_eng_title \<noteq> k_cert" "k_eng_title \<noteq> k_duration"
  "k_eng_title \<noteq> k_genre" "k_eng_title \<noteq> k_release"
  "k_eng_title \<noteq> k_trailer" "k_rating \<noteq> k_poster" "k_rating \<noteq> k_title"
  "k_rating \<noteq> k_eng_title" "k_rating \<noteq> k_cert" "k_rating \<noteq> k_duration"
  "k_rating \<noteq> k_genre" "k_rating \<noteq> k_release" "k_rating \<noteq> k_trailer"
  "k_cert \<noteq> k_poster" "k_cert \<noteq> k_title" "k_cert \<noteq> k_eng_title"
  "k_cert \<noteq> k_rating" "k_cert \<noteq> k_duration" "k_cert \<noteq> k_genre"
  "k_cert \<noteq> k_release" "k_cert \<noteq> k_trailer" "k_duration \<noteq> k_poster"
  "k_duration \<noteq> k_title" "k_duration \<noteq> k_eng_title"
  "k_duration \<noteq> k_rating" "k_duration \<noteq> k_cert" "k_duration \<noteq> k_genre"
  "k_duration \<noteq> k_release" "k_duration \<noteq> k_trailer"
  "k_genre \<noteq> k_poster" "k_genre \<noteq> k_title" "k_genre \<noteq> k_eng_title"
  "k_genre \<noteq> k_rating" "k_genre \<noteq> k_cert" "k_genre \<noteq> k_duration"
  "k_genre \<noteq> k_release" "k_genre \<noteq> k_trailer" "k_release \<noteq> k_poster"
  "k_release \<noteq> k_title" "k_release \<noteq> k_eng_title"
  "k_release \<noteq> k_rating" "k_release \<noteq> k_cert" "k_release \<noteq> k_duration"
  "k_release \<noteq> k_genre" "k_release \<noteq> k_trailer" "k_trailer \<noteq> k_poster"
  "k_trailer \<noteq> k_title" "k_trailer \<noteq> k_eng_title"
  "k_trailer \<noteq> k_rating" "k_trailer \<noteq> k_cert" "k_trailer \<noteq> k_duration"
  "k_trailer \<noteq> k_genre" "k_trailer \<noteq> k_release"
  by (simp_all add: key_defs)

lemma extract_category_info_other: "k \<noteq> k_genre \<Longrightarrow> extract_category_info item m k = m k"
  by (simp add: extract_category_info_def Let_def split: option.splits)

lemma extract_status_info_other:
  "k \<noteq> k_duration \<Longrightarrow> k \<noteq> k_release \<Longrightarrow> extract_status_info item m k = m k"
  by (simp add: extract_status_info_def status_fields_def Let_def split: option.splits)

lemma status_fields_duration:
  "status_fields t m k_duration = (case search duration_rx t of None \<Rightarrow> m k_duration | Some g \<Rightarrow> Some g)"
  by (simp add: status_fields_def Let_def key_distinct split: option.splits)

lemma status_fields_release:
  "status_fields t m k_release =
     (case search release_rx t of None \<Rightarrow> m k_release | Some g \<Rightarrow> Some ([0x4e0a, 0x6620] @ g))"
  by (simp add: status_fields_def Let_def key_distinct split: option.splits)

lemma extract_movie_info_title:
  "extract_movie_info item k_title = Some (extract_text_content item ''h2'' ''detailListItem-title'')"
  unfolding extract_movie_info_def Let_def
  by (simp add: extract_category_info_other extract_status_info_other key_distinct split: option.splits)

lemma extract_movie_info_duration:
  "find_first item ''div'' ''detailListItem-status'' = Some status \<Longrightarrow>
   extract_movie_info item k_duration = search duration_rx (get_text_strip status)"
  unfolding extract_movie_info_def Let_def
  by (simp add: extract_category_info_other extract_status_info_def status_fields_duration key_distinct
        split: option.splits)

lemma extract_movie_info_release:
  "find_first item ''div'' ''detailListItem-status'' = Some status \<Longrightarrow>
   extract_movie_info item k_release =
     map_option (\<lambda>g. [0x4e0a, 0x6620] @ g) (search release_rx (get_text_strip status))"
  unfolding extract_movie_info_def Let_def
  by (simp add: extract_category_info_other extract_status_info_def status_fields_release key_distinct
        split: option.splits)

section \<open>Entries without a title\<close>

lemma parse_movies_filter:
  "parse_movies_from_html soup =
     map extract_movie_info
       (filter (\<lambda>item. extract_text_content item ''h2'' ''detailListItem-title'' \<noteq> [])
          (find_all soup ''li'' ''detailList-item''))"
  by (simp add: parse_movies_from_html_def filter_map comp_def truthy_def extract_movie_info_title)

lemma parse_movies_titled:
  "movie \<in> set (parse_movies_from_html soup) \<Longrightarrow> \<exists>t. movie k_title = Some t \<and> t \<noteq> []"
  by (auto simp: parse_movies_from_html_def truthy_def split: option.splits)

lemma load_body_titled:
  "load_body env = Inr ms \<Longrightarrow> movie \<in> set ms \<Longrightarrow> \<exists>t. movie k_title = Some t \<and> t \<noteq> []"
  by (auto simp: load_body_def then_do_def step_def parse_movies_titled
      split: option.splits sum.splits if_splits)

text \<open>A list of records that the loader returns is the one its \<open>try\<close> block returned.\<close>

lemma top_movies_load_body:
  "fst (get_line_today_top_movies env) = Inr ms \<Longrightarrow> load_body env = Inr ms"
  by (auto simp: get_line_today_top_movies_def browser_session_def split: option.splits)

lemma top_movies_titled:
  "fst (get_line_today_top_movies env) = Inr ms \<Longrightarrow> movie \<in> set ms \<Longrightarrow>
     \<exists>t. movie k_title = Some t \<and> t \<noteq> []"
  by (rule load_body_titled[OF top_movies_load_body])

text \<open>
  Claim C1.  An entry without the title element gets the empty text as its title, the
  way the records represent an absent field; the parser keeps exactly the entries whose
  title text is not empty, in their order; so every record of the parser, and every
  record the page loader returns, has a non-empty title.
\<close>

theorem title_required:
  "(find_first item ''h2'' ''detailListItem-title'' = None \<longrightarrow>
      extract_text_content item ''h2'' ''detailListItem-title'' = [] \<and>
      extract_movie_info item k_title = Some [] \<and>
      \<not> truthy (extract_movie_info item) k_title) \<and>
   parse_movies_from_html soup =
     map extract_movie_info
       (filter (\<lambda>item. extract_text_content item ''h2'' ''detailListItem-title'' \<noteq> [])
          (find_all soup ''li'' ''detailList-item'')) \<and>
   (\<forall>movie \<in> set (parse_movies_from_html soup). \<exists>t. movie k_title = Some t \<and> t \<noteq> []) \<and>
   (\<forall>ms. fst (get_line_today_top_movies env) = Inr ms \<longrightarrow>
      (\<forall>movie \<in> set ms. \<exists>t. movie k_title = Some t \<and> t \<noteq> []))"
proof (intro conjI impI allI ballI)
  assume a: "find_first item ''h2'' ''detailListItem-title'' = None"
  show "extract_text_content item ''h2'' ''detailListItem-title'' = []"
    using a by (simp add: extract_text_content_def)
  then show "extract_movie_info item k_title = Some []"
    by (simp add: extract_movie_info_title)
  then show "\<not> truthy (extract_movie_info item) k_title"
    by (simp add: truthy_def)
next
  show "parse_movies_from_html soup =
     map extract_movie_info
       (filter (\<lambda>item. extract_text_content item ''h2'' ''detailListItem-title'' \<noteq> [])
          (find_all soup ''li'' ''detailList-item''))"
    by (rule parse_movies_filter)
next
  fix movie assume "movie \<in> set (parse_movies_from_html soup)"
  then show "\<exists>t. movie k_title = Some t \<and> t \<noteq> []" by (rule parse_movies_titled)
next
  fix ms movie assume "fst (get_line_today_top_movies env) = Inr ms" "movie \<in> set ms"
  then show "\<exists>t. movie k_title = Some t \<and> t \<noteq> []" by (rule top_movies_titled)
qed

lemma untitled_no_h2: "find_first entry_untitled ''h2'' ''detailListItem-title'' = None"
  by (simp add: entry_untitled_def find_first_def find_all_def)

lemma sample_entries: "find_all sample_soup ''li'' ''detailList-item'' = [entry_untitled, entry_titled]"
  by (simp add: sample_soup_def entry_untitled_def entry_titled_def sample_status_def find_all_def)

lemma titled_text: "extract_text_content entry_titled ''h2'' ''detailListItem-title'' = asc ''Dune''"
  by (simp add: entry_titled_def sample_status_def extract_text_content_def find_first_def find_all_def
       get_text_strip_def strip_def strip_chars_def asc_def is_space_def)

lemma untitled_text: "extract_text_content entry_untitled ''h2'' ''detailListItem-title'' = []"
  by (simp add: extract_text_content_def untitled_no_h2)

lemma sample_titles: "map (\<lambda>m. m k_title) (parse_movies_from_html sample_soup) = [Some (asc ''Dune'')]"
  by (simp add: parse_movies_filter sample_entries titled_text untitled_text extract_movie_info_title asc_def)

theorem title_required_witness:
  "find_first entry_untitled ''h2'' ''detailListItem-title'' = None \<and>
   extract_movie_info entry_untitled k_title = Some [] \<and>
   find_all sample_soup ''li'' ''detailList-item'' = [entry_untitled, entry_titled] \<and>
   map (\<lambda>m. m k_title) (parse_movies_from_html sample_soup) = [Some (asc ''Dune'')] \<and>
   fst (get_line_today_top_movies (quiet_env sample_soup)) = Inr (parse_movies_from_html sample_soup)"
  using title_required[of entry_untitled sample_soup "quiet_env sample_soup"] untitled_no_h2 sample_entries sample_titles
  by (simp add: get_line_today_top_movies_def browser_session_def load_body_def quiet_env_def
      then_do_def step_def)

section \<open>Duration and release window\<close>

lemma search_duration_spec:
  "(case search duration_rx t of
      None \<Rightarrow> \<not> (\<exists>pre w post. t = pre @ w @ post \<and> matches duration_rx w)
    | Some d \<Rightarrow> \<exists>pre post. t = pre @ d @ post \<and> matches duration_rx d \<and>
        (\<forall>pre' w' post'. t = pre' @ w' @ post' \<and> matches duration_rx w' \<longrightarrow>
           length pre \<le> length pre'))"
proof (cases "search duration_rx t")
  case None
  then show ?thesis using search_None_no_occurrence[of duration_rx t] by simp
next
  case (Some d)
  obtain pre rest where p: "t = pre @ rest" "match_here duration_rx rest = Some d"
    "\<forall>pre' w' post'. t = pre' @ w' @ post' \<and> matches duration_rx w' \<longrightarrow> length pre \<le> length pre'"
    using search_Some_leftmost[OF Some] by blast
  obtain post where "rest = d @ post" "matches duration_rx d"
    using match_here_Grp[of _ rest d] p(2) unfolding duration_rx_def by auto
  then have "t = pre @ d @ post \<and> matches duration_rx d \<and>
        (\<forall>pre' w' post'. t = pre' @ w' @ post' \<and> matches duration_rx w' \<longrightarrow>
           length pre \<le> length pre')" using p by simp
  then show ?thesis using Some by auto
qed

lemma search_release_spec:
  "(case search release_rx t of
      None \<Rightarrow> \<not> (\<exists>pre w post. t = pre @ w @ post \<and> matches release_rx w)
    | Some g \<Rightarrow> \<exists>pre post. t = pre @ ([0x4e0a, 0x6620] @ g) @ post \<and>
        matches release_rx ([0x4e0a, 0x6620] @ g) \<and>
        (\<forall>pre' w' post'. t = pre' @ w' @ post' \<and> matches release_rx w' \<longrightarrow>
           length pre \<le> length pre'))"
proof (cases "search release_rx t")
  case None
  then show ?thesis using search_None_no_occurrence[of release_rx t] by simp
next
  case (Some g)
  obtain pre rest where p: "t = pre @ rest" "match_here release_rx rest = Some g"
    "\<forall>pre' w' post'. t = pre' @ w' @ post' \<and> matches release_rx w' \<longrightarrow> length pre \<le> length pre'"
    using search_Some_leftmost[OF Some] by blast
  obtain post where "rest = ([0x4e0a, 0x6620] @ g) @ post" "matches release_rx ([0x4e0a, 0x6620] @ g)"
    using match_here_release[OF p(2)] by blast
  then have "t = pre @ ([0x4e0a, 0x6620] @ g) @ post \<and> matches release_rx ([0x4e0a, 0x6620] @ g) \<and>
        (\<forall>pre' w' post'. t = pre' @ w' @ post' \<and> matches release_rx w' \<longrightarrow>
           length pre \<le> length pre')" using p by simp
  then show ?thesis using Some by auto
qed

text \<open>
  Claim C3.  For an entry with a status text: the duration field is absent when no part
  of the text matches the hours-and-minutes pattern, and otherwise holds the leftmost part
  of the text that matches it; independently, the release field is absent when no part of
  the text matches the weeks-or-days pattern, and otherwise holds the leftmost part that
  matches it.
\<close>

theorem status_fields_extracted:
  assumes "find_first item ''div'' ''detailListItem-status'' = Some status"
  shows
   "(case extract_movie_info item k_duration of
      None \<Rightarrow> \<not> (\<exists>pre w post. get_text_strip status = pre @ w @ post \<and> matches duration_rx w)
    | Some d \<Rightarrow> \<exists>pre post. get_text_strip status = pre @ d @ post \<and> matches duration_rx d \<and>
        (\<forall>pre' w' post'. get_text_strip status = pre' @ w' @ post' \<and> matches duration_rx w' \<longrightarrow>
           length pre \<le> length pre')) \<and>
    (case extract_movie_info item k_release of
      None \<Rightarrow> \<not> (\<exists>pre w post. get_text_strip status = pre @ w @ post \<and> matches release_rx w)
    | Some r \<Rightarrow> \<exists>pre post. get_text_strip status = pre @ r @ post \<and> matches release_rx r \<and>
        (\<forall>pre' w' post'. get_text_strip status = pre' @ w' @ post' \<and> matches release_rx w' \<longrightarrow>
           length pre \<le> length pre'))"
proof
  show "(case extract_movie_info item k_duration of
      None \<Rightarrow> \<not> (\<exists>pre w post. get_text_strip status = pre @ w @ post \<and> matches duration_rx w)
    | Some d \<Rightarrow> \<exists>pre post. get_text_strip status = pre @ d @ post \<and> matches duration_rx d \<and>
        (\<forall>pre' w' post'. get_text_strip status = pre' @ w' @ post' \<and> matches duration_rx w' \<longrightarrow>
           length pre \<le> length pre'))"
    using search_duration_spec[of "get_text_strip status"]
    by (simp only: extract_movie_info_duration[OF assms])
  show "(case extract_movie_info item k_release of
      None \<Rightarrow> \<not> (\<exists>pre w post. get_text_strip status = pre @ w @ post \<and> matches release_rx w)
    | Some r \<Rightarrow> \<exists>pre post. get_text_strip status = pre @ r @ post \<and> matches release_rx r \<and>
        (\<forall>pre' w' post'. get_text_strip status = pre' @ w' @ post' \<and> matches release_rx w' \<longrightarrow>
           length pre \<le> length pre'))"
    using search_release_spec[of "get_text_strip status"]
    unfolding extract_movie_info_release[OF assms]
    by (cases "search release_rx (get_text_strip status)") simp_all
qed

lemma matches_plus_digit: "matches (Plus CDigit) w \<longleftrightarrow> w \<noteq> [] \<and> list_all is_decimal w"
  by (simp add: list_all_iff)

lemma matches_duration_rx:
  "matches duration_rx w \<longleftrightarrow>
     (\<exists>h m. w = h @ [0x5c0f, 0x6642] @ m @ [0x5206] \<and> h \<noteq> [] \<and> list_all is_decimal h \<and>
        m \<noteq> [] \<and> list_all is_decimal m)"
  unfolding duration_rx_def matches.simps(8) lit.simps matches_Cat matches_Sym matches_plus_digit
  by (auto simp: list_all_iff) blast

lemma matches_release_rx:
  "matches release_rx w \<longleftrightarrow>
     (\<exists>n u. w = [0x4e0a, 0x6620] @ n @ [u] \<and> n \<noteq> [] \<and> list_all is_decimal n \<and>
        (u = 0x9031 \<or> u = 0x5929))"
  unfolding release_rx_def matches.simps(8) matches.simps(3) lit.simps matches_Cat matches_Sym
    matches_plus_digit
  by (auto simp: list_all_iff)

lemma extract_movie_info_no_status:
  "find_first item ''div'' ''detailListItem-status'' = None \<Longrightarrow>
   extract_movie_info item k_duration = None"
  unfolding extract_movie_info_def Let_def
  by (simp add: extract_category_info_other extract_status_info_def key_distinct
        split: option.splits)

lemma titled_status: "find_first entry_titled ''div'' ''detailListItem-status'' = Some sample_status"
  by (simp add: entry_titled_def find_first_def find_all_def sample_status_def)

lemma sample_status_text: "get_text_strip sample_status = [50, 0x5c0f, 0x6642, 49, 53, 0x5206, 0x4e0a, 0x6620, 51, 0x9031]"
  by (simp add: sample_status_def get_text_strip_def strip_def strip_chars_def is_space_def)

lemma sample_decimals: "is_decimal 50" "is_decimal 49" "is_decimal 53" "is_decimal 51"
  "\<not> is_decimal 0x5c0f" "\<not> is_decimal 0x4e0a" "\<not> is_decimal 0x6620" "\<not> is_decimal 0x9031"
  "\<not> is_decimal 0x5206" "\<not> is_decimal 0x6642"
  by (simp_all add: is_decimal_def nd_zeros_def)

lemma sample_duration: "search duration_rx [50, 0x5c0f, 0x6642, 49, 53, 0x5206, 0x4e0a, 0x6620, 51, 0x9031] =
    Some [50, 0x5c0f, 0x6642, 49, 53, 0x5206]"
  by (simp add: duration_rx_def match_here_def sample_decimals)

lemma sample_release: "search release_rx [50, 0x5c0f, 0x6642, 49, 53, 0x5206, 0x4e0a, 0x6620, 51, 0x9031] =
    Some [51, 0x9031]"
  by (simp add: release_rx_def match_here_def sample_decimals)

theorem status_fields_extracted_witness:
  "find_first entry_titled ''div'' ''detailListItem-status'' = Some sample_status \<and>
   extract_movie_info entry_titled k_duration = Some [50, 0x5c0f, 0x6642, 49, 53, 0x5206] \<and>
   extract_movie_info entry_titled k_release = Some [0x4e0a, 0x6620, 51, 0x9031] \<and>
   extract_movie_info entry_untitled k_duration = None"
proof -
  have d: "extract_movie_info entry_titled k_duration = Some [50, 0x5c0f, 0x6642, 49, 53, 0x5206]"
    by (simp only: extract_movie_info_duration[OF titled_status] sample_status_text sample_duration)
  have r: "extract_movie_info entry_titled k_release = Some [0x4e0a, 0x6620, 51, 0x9031]"
    by (simp only: extract_movie_info_release[OF titled_status] sample_status_text sample_release option.map append.simps)
  have n: "extract_movie_info entry_untitled k_duration = None"
    by (rule extract_movie_info_no_status)
       (simp add: entry_untitled_def find_first_def find_all_def)
  from status_fields_extracted[OF titled_status] titled_status d r n show ?thesis by blast
qed

section \<open>Loading and rendering\<close>


lemma built_append: "built (xs @ ys) = built xs @ built ys"
  by (induction xs rule: built.induct) simp_all

lemma built_map_filter: "built xs = List.map_filter id xs"
  by (induction xs rule: built.induct) (simp_all add: List.map_filter_simps)

lemma length_built: "length (built xs) \<le> length xs"
  by (induction xs rule: built.induct) simp_all

lemma built_Nil_iff: "built xs = [] \<longleftrightarrow> (\<forall>x \<in> set xs. x = None)"
  by (induction xs rule: built.induct) simp_all

lemma built_all_Some: "\<forall>x \<in> set xs. x \<noteq> None \<Longrightarrow> map Some (built xs) = xs"
  by (induction xs rule: built.induct) simp_all

lemma movie_cards_length: "length (movie_cards sdk ms) \<le> MAX_MOVIES"
proof -
  have "length (movie_cards sdk ms) \<le> length (take MAX_MOVIES ms)"
    using length_built[of "map (create_movie_bubble sdk) (take MAX_MOVIES ms)"]
    by (simp add: movie_cards_def)
  then show ?thesis by simp
qed

lemma movie_cards_map_filter:
  "movie_cards sdk ms = List.map_filter (create_movie_bubble sdk) (take MAX_MOVIES ms)"
  by (simp add: movie_cards_def built_map_filter List.map_filter_def filter_map comp_def)

lemma load_body_timeout:
  "set_extra_http_headers env = None \<Longrightarrow> set_viewport_size env = None \<Longrightarrow> goto env = None \<Longrightarrow>
   wait_for_selector env = Some PlaywrightTimeoutError \<Longrightarrow> load_body env = Inr []"
  by (simp add: load_body_def then_do_def step_def)

text \<open>
  Claim C6, as amended.  When the browser starts, the page is reached, the wait for the
  list of entries times out, and neither \<open>browser.close()\<close> nor the exit of the
  \<open>with sync_playwright()\<close> statement raises, the page loader returns the empty list of
  records, with the browser closed, and \<open>get_movies\<close> returns the absence value: no
  exception reaches the caller.
\<close>

theorem timeout_gives_no_movies:
  assumes "start_playwright env = None" and "launch env = None" and "new_page env = None"
    and "set_extra_http_headers env = None" and "set_viewport_size env = None"
    and "goto env = None" and "wait_for_selector env = Some PlaywrightTimeoutError"
    and "browser_close env = None" and "stop_playwright env = None"
  shows "get_line_today_top_movies env = (Inr [], True) \<and> get_movies env sdk = Inr None"
proof -
  have "get_line_today_top_movies env = (Inr [], True)"
    using assms by (simp add: get_line_today_top_movies_def browser_session_def load_body_timeout)
  then show ?thesis by (simp add: get_movies_def then_do_def)
qed

theorem timeout_gives_no_movies_witness:
  "wait_for_selector timeout_env = Some PlaywrightTimeoutError \<and>
   browser_close timeout_env = None \<and> stop_playwright timeout_env = None \<and>
   get_line_today_top_movies timeout_env = (Inr [], True) \<and>
   get_movies timeout_env quiet_sdk = Inr None"
  using timeout_gives_no_movies[of timeout_env quiet_sdk] by (simp add: timeout_env_def)

text \<open>
  The claim as first stated fails when \<open>browser.close()\<close> raises after the wait has
  timed out: the exception of the \<open>finally\<close> clause replaces the empty list that the
  \<open>except\<close> clause returns, and it reaches the caller of \<open>get_movies\<close>.
\<close>

theorem close_failure_counterexample:
  "start_playwright close_fails_env = None \<and> launch close_fails_env = None \<and>
   new_page close_fails_env = None \<and> set_extra_http_headers close_fails_env = None \<and>
   set_viewport_size close_fails_env = None \<and> goto close_fails_env = None \<and>
   wait_for_selector close_fails_env = Some PlaywrightTimeoutError \<and>
   fst (get_line_today_top_movies close_fails_env) = Inl OtherException \<and>
   get_movies close_fails_env quiet_sdk = Inl OtherException"
  by (simp add: get_movies_def get_line_today_top_movies_def browser_session_def
      close_fails_env_def then_do_def)

lemma get_movies_None_iff:
  assumes "fst (get_line_today_top_movies env) = Inr movie_list"
  shows "get_movies env sdk = Inr None \<longleftrightarrow>
     movie_list = [] \<or> (\<forall>m \<in> set (take MAX_MOVIES movie_list). create_movie_bubble sdk m = None)"
proof (cases "movie_list = []")
  case True
  then show ?thesis using assms by (simp add: get_movies_def then_do_def)
next
  case False
  have c: "movie_cards sdk movie_list = [] \<longleftrightarrow>
      (\<forall>m \<in> set (take MAX_MOVIES movie_list). create_movie_bubble sdk m = None)"
    by (simp add: movie_cards_def built_Nil_iff)
  show ?thesis
  proof (cases "movie_cards sdk movie_list = []")
    case True
    then show ?thesis using assms False c by (simp add: get_movies_def then_do_def)
  next
    case nonempty: False
    then have "get_movies env sdk \<noteq> Inr None"
      using assms False by (simp add: get_movies_def then_do_def Let_def split: sum.splits)
    then show ?thesis using nonempty c False by simp
  qed
qed

text \<open>
  Claim C10.  Given the records the page loader returned, \<open>get_movies\<close> returns the
  absence value exactly in two cases: there is no record, or the construction of the card
  of every record among the first \<open>MAX_MOVIES\<close> failed.  The value is the same in both.
\<close>

theorem absence_has_two_causes:
  assumes "fst (get_line_today_top_movies env) = Inr movie_list"
  shows "(get_movies env sdk = Inr None \<longleftrightarrow>
           movie_list = [] \<or>
           (\<forall>m \<in> set (take MAX_MOVIES movie_list). create_movie_bubble sdk m = None)) \<and>
         (movie_list \<noteq> [] \<and>
           (\<forall>m \<in> set (take MAX_MOVIES movie_list). create_movie_bubble sdk m = None) \<longrightarrow>
           get_movies env sdk = Inr None)"
  using get_movies_None_iff[OF assms] by blast

lemma get_movies_Some:
  assumes "fst (get_line_today_top_movies env) = Inr ml"
    and "get_movies env sdk = Inr (Some message)"
  shows "message = FlexSendMessage alt_text (CarouselContainer (movie_cards sdk ml))"
  using assms
  by (auto simp: get_movies_def then_do_def mk_def Let_def split: if_splits option.splits)

lemma load_body_content:
  "load_body env = Inr ml \<Longrightarrow> wait_for_selector env = None \<Longrightarrow> content env = Inr soup \<Longrightarrow>
   ml = parse_movies_from_html soup"
  by (auto simp: load_body_def then_do_def step_def split: option.splits)

lemma top_movies_content:
  "fst (get_line_today_top_movies env) = Inr ml \<Longrightarrow> wait_for_selector env = None \<Longrightarrow>
   content env = Inr soup \<Longrightarrow> ml = parse_movies_from_html soup"
  by (rule load_body_content[OF top_movies_load_body])

text \<open>
  Claim C4.  The cards are those of the first \<open>MAX_MOVIES\<close> = 10 records, in the order
  of the records, the records whose card failed left out; so there are at most 10, and when
  no card fails the i-th card is the card of the i-th record.  The message of
  \<open>get_movies\<close> carries exactly these cards.  The cut is made on the list the page loader
  returned, which is the whole list of the parser: every entry of the page with a title,
  in document order.
\<close>

theorem cards_are_first_ten:
  "MAX_MOVIES = 10 \<and>
   length (movie_cards sdk movie_list) \<le> 10 \<and>
   movie_cards sdk movie_list = List.map_filter (create_movie_bubble sdk) (take 10 movie_list) \<and>
   ((\<forall>m \<in> set (take 10 movie_list). create_movie_bubble sdk m \<noteq> None) \<longrightarrow>
      map Some (movie_cards sdk movie_list) = map (create_movie_bubble sdk) (take 10 movie_list)) \<and>
   (\<forall>ml message. fst (get_line_today_top_movies env) = Inr ml \<and>
        get_movies env sdk = Inr (Some message) \<longrightarrow>
      message = FlexSendMessage alt_text (CarouselContainer (movie_cards sdk ml))) \<and>
   (\<forall>ml. fst (get_line_today_top_movies env) = Inr ml \<and> wait_for_selector env = None \<and>
        content env = Inr soup \<longrightarrow>
      ml = parse_movies_from_html soup) \<and>
   parse_movies_from_html soup =
     map extract_movie_info
       (filter (\<lambda>item. extract_text_content item ''h2'' ''detailListItem-title'' \<noteq> [])
          (find_all soup ''li'' ''detailList-item''))"
proof (intro conjI allI impI)
  show "MAX_MOVIES = 10" by (simp add: MAX_MOVIES_def)
  show "length (movie_cards sdk movie_list) \<le> 10"
    using movie_cards_length[of sdk movie_list] by (simp add: MAX_MOVIES_def)
  show "movie_cards sdk movie_list = List.map_filter (create_movie_bubble sdk) (take 10 movie_list)"
    using movie_cards_map_filter[of sdk movie_list] by (simp add: MAX_MOVIES_def)
next
  assume "\<forall>m \<in> set (take 10 movie_list). create_movie_bubble sdk m \<noteq> None"
  then have "\<forall>x \<in> set (map (create_movie_bubble sdk) (take 10 movie_list)). x \<noteq> None" by simp
  then show "map Some (movie_cards sdk movie_list) = map (create_movie_bubble sdk) (take 10 movie_list)"
    using built_all_Some[of "map (create_movie_bubble sdk) (take 10 movie_list)"]
    by (simp add: movie_cards_def MAX_MOVIES_def)
next
  fix ml message
  assume "fst (get_line_today_top_movies env) = Inr ml \<and> get_movies env sdk = Inr (Some message)"
  then show "message = FlexSendMessage alt_text (CarouselContainer (movie_cards sdk ml))"
    using get_movies_Some by blast
next
  fix ml
  assume "fst (get_line_today_top_movies env) = Inr ml \<and> wait_for_selector env = None \<and>
        content env = Inr soup"
  then show "ml = parse_movies_from_html soup" using top_movies_content by blast
next
  show "parse_movies_from_html soup =
     map extract_movie_info
       (filter (\<lambda>item. extract_text_content item ''h2'' ''detailListItem-title'' \<noteq> [])
          (find_all soup ''li'' ''detailList-item''))"
    by (rule parse_movies_filter)
qed

lemma lettered_find [simp]:
  "find_first (lettered_entry n) tg c =
     (if tg = ''h2'' \<and> c = ''detailListItem-title''
      then Some (Elem ''h2'' [''detailListItem-title''] [] [Text [65 + n]]) else None)"
  by (simp add: lettered_entry_def find_first_def find_all_def)

lemma lettered_text:
  "n < 26 \<Longrightarrow> extract_text_content (lettered_entry n) tg c =
     (if tg = ''h2'' \<and> c = ''detailListItem-title'' then [65 + n] else [])"
  by (simp add: extract_text_content_def get_text_strip_def strip_def strip_chars_def is_space_def)

lemma lettered_title:
  "n < 26 \<Longrightarrow> extract_text_content (lettered_entry n) ''h2'' ''detailListItem-title'' = [65 + n]"
  by (simp add: lettered_text)

lemma mk_quiet: "mk quiet_sdk c = Inr c"
  by (simp add: mk_def quiet_sdk_def)

lemma lettered_record:
  "n < 26 \<Longrightarrow> extract_movie_info (lettered_entry n) =
     [k_poster \<mapsto> [], k_title \<mapsto> [65 + n], k_eng_title \<mapsto> [], k_rating \<mapsto> []]"
  by (simp add: extract_movie_info_def lettered_text extract_image_url_def
        extract_status_info_def extract_category_info_def)

lemma lettered_body:
  "movie_bubble_body sdk [k_poster \<mapsto> [], k_title \<mapsto> t, k_eng_title \<mapsto> [], k_rating \<mapsto> []] =
     then_do (mk sdk (TextComponent t [(''weight'', ''bold''), (''size'', ''lg''), (''wrap'', ''True'')]))
      (\<lambda>title. then_do (mk sdk (BoxComponent ''vertical'' [title]
          [(''spacing'', ''sm''), (''paddingAll'', ''20px'')]))
      (\<lambda>body. mk sdk (BubbleContainer None None (Some body) None)))"
  by (simp add: movie_bubble_body_def when_set_def key_distinct then_do_def split: sum.splits)

lemma lettered_quiet:
  "n < 26 \<Longrightarrow> create_movie_bubble quiet_sdk (extract_movie_info (lettered_entry n)) = Some (lettered_card n)"
  by (simp add: lettered_record create_movie_bubble_def lettered_body then_do_def mk_quiet
      lettered_card_def)

lemma fifteen_entries:
  "find_all fifteen_soup ''li'' ''detailList-item'' = map lettered_entry [0..<15]"
proof -
  have "\<And>ns. concat (map (\<lambda>c. c # descendants c) (map lettered_entry ns)) =
      concat (map (\<lambda>n. [lettered_entry n, Elem ''h2'' [''detailListItem-title''] [] [Text [65 + n]],
         Text [65 + n]]) ns)"
    by (simp add: lettered_entry_def comp_def)
  moreover have "\<And>ns. filter (has_tag_class ''li'' ''detailList-item'')
      (concat (map (\<lambda>n. [lettered_entry n, Elem ''h2'' [''detailListItem-title''] [] [Text [65 + n]],
         Text [65 + n]]) ns)) = map lettered_entry ns"
    subgoal for ns by (induction ns) (simp_all add: lettered_entry_def)
    done
  ultimately show ?thesis by (simp add: fifteen_soup_def find_all_def)
qed

lemma upt_15: "[0..<15] = [0, 1, 2, 3, 4, 5, 6, 7, 8, 9, 10, 11, 12, 13, 14::nat]"
  by code_simp

lemma fifteen_records:
  "parse_movies_from_html fifteen_soup = map (\<lambda>n. extract_movie_info (lettered_entry n)) [0..<15]"
proof -
  have "filter (\<lambda>item. extract_text_content item ''h2'' ''detailListItem-title'' \<noteq> [])
      (map lettered_entry [0..<15]) = map lettered_entry [0..<15]"
    by (rule filter_True) (auto simp: lettered_title)
  then show ?thesis by (simp add: parse_movies_filter fifteen_entries comp_def)
qed

lemma quiet_env_loads:
  "fst (get_line_today_top_movies (quiet_env soup)) = Inr (parse_movies_from_html soup)"
  by (simp add: get_line_today_top_movies_def browser_session_def load_body_def quiet_env_def
      then_do_def step_def)

lemma fifteen_cards:
  "movie_cards quiet_sdk (parse_movies_from_html fifteen_soup) = map lettered_card [0..<10]"
proof -
  have h: "map (create_movie_bubble quiet_sdk) (take MAX_MOVIES (parse_movies_from_html fifteen_soup))
      = map (\<lambda>n. Some (lettered_card n)) [0..<10]"
    by (auto simp: fifteen_records MAX_MOVIES_def take_map lettered_quiet)
  have b: "\<And>ns. built (map (\<lambda>n. Some (lettered_card n)) ns) = map lettered_card ns"
    subgoal for ns by (induction ns) simp_all
    done
  show ?thesis unfolding movie_cards_def Let_def h by (rule b)
qed

theorem cards_are_first_ten_witness:
  "length (parse_movies_from_html fifteen_soup) = 15 \<and>
   fst (get_line_today_top_movies (quiet_env fifteen_soup)) = Inr (parse_movies_from_html fifteen_soup) \<and>
   get_movies (quiet_env fifteen_soup) quiet_sdk =
     Inr (Some (FlexSendMessage alt_text (CarouselContainer (map lettered_card [0..<10])))) \<and>
   map Some (movie_cards quiet_sdk (parse_movies_from_html fifteen_soup)) =
     map (create_movie_bubble quiet_sdk) (take 10 (parse_movies_from_html fifteen_soup))"
proof -
  have l: "length (parse_movies_from_html fifteen_soup) = 15" by (simp add: fifteen_records)
  have g: "get_movies (quiet_env fifteen_soup) quiet_sdk =
     Inr (Some (FlexSendMessage alt_text (CarouselContainer (map lettered_card [0..<10]))))"
    using l by (auto simp: get_movies_def quiet_env_loads then_do_def fifteen_cards mk_quiet)
  have a: "\<forall>m \<in> set (take 10 (parse_movies_from_html fifteen_soup)).
      create_movie_bubble quiet_sdk m \<noteq> None"
    by (auto simp: fifteen_records take_map lettered_quiet)
  from cards_are_first_ten[of quiet_sdk "parse_movies_from_html fifteen_soup" "quiet_env fifteen_soup" fifteen_soup]
    a l g quiet_env_loads[of fifteen_soup]
  show ?thesis by blast
qed

lemma failing_sdk_body: "movie_bubble_body failing_sdk movie = Inl OtherException"
  by (simp add: movie_bubble_body_def then_do_def mk_def failing_sdk_def when_set_def
      split: option.splits)

lemma failing_sdk_card: "create_movie_bubble failing_sdk movie = None"
  by (simp add: create_movie_bubble_def failing_sdk_body)

lemma sample_records_nonempty: "parse_movies_from_html sample_soup \<noteq> []"
  using sample_titles by auto

theorem absence_has_two_causes_witness:
  "fst (get_line_today_top_movies timeout_env) = Inr [] \<and>
   get_movies timeout_env quiet_sdk = Inr None \<and>
   fst (get_line_today_top_movies (quiet_env sample_soup)) = Inr (parse_movies_from_html sample_soup) \<and>
   parse_movies_from_html sample_soup \<noteq> [] \<and>
   get_movies (quiet_env sample_soup) failing_sdk = Inr None"
proof -
  have t: "fst (get_line_today_top_movies timeout_env) = Inr []"
    by (simp add: get_line_today_top_movies_def browser_session_def load_body_def timeout_env_def
        then_do_def step_def)
  have q: "fst (get_line_today_top_movies (quiet_env sample_soup)) = Inr (parse_movies_from_html sample_soup)"
    by (rule quiet_env_loads)
  from absence_has_two_causes[OF t, of quiet_sdk] absence_has_two_causes[OF q, of failing_sdk]
    t q sample_records_nonempty failing_sdk_card
  show ?thesis by blast
qed

text \<open>
  Claim C8.  When the construction of a record's card raises, \<open>create_movie_bubble\<close>
  returns the absence value; the record contributes no card, and the cards of the records
  before and after it are the ones they have without it.
\<close>

theorem failed_card_is_dropped:
  assumes "movie_bubble_body sdk movie = Inl e" and "length before < MAX_MOVIES"
  shows "create_movie_bubble sdk movie = None \<and>
         movie_cards sdk (before @ movie # after) =
           built (map (create_movie_bubble sdk) before) @
           built (map (create_movie_bubble sdk) (take (MAX_MOVIES - Suc (length before)) after)) \<and>
         (\<forall>env message. fst (get_line_today_top_movies env) = Inr (before @ movie # after) \<and>
              get_movies env sdk = Inr (Some message) \<longrightarrow>
            message = FlexSendMessage alt_text (CarouselContainer
              (built (map (create_movie_bubble sdk) before) @
               built (map (create_movie_bubble sdk) (take (MAX_MOVIES - Suc (length before)) after)))))"
proof -
  have n: "create_movie_bubble sdk movie = None"
    using assms(1) by (simp add: create_movie_bubble_def)
  have "take MAX_MOVIES (before @ movie # after) =
      before @ movie # take (MAX_MOVIES - Suc (length before)) after"
    using assms(2) by (simp add: take_Cons' )
  then have c: "movie_cards sdk (before @ movie # after) =
           built (map (create_movie_bubble sdk) before) @
           built (map (create_movie_bubble sdk) (take (MAX_MOVIES - Suc (length before)) after))"
    using n by (simp add: movie_cards_def built_append)
  show ?thesis using n c get_movies_Some by metis
qed

lemma picky_fails:
  "movie_bubble_body picky_sdk (extract_movie_info (lettered_entry 1)) = Inl ValueError"
  by (simp add: lettered_record lettered_body then_do_def mk_def picky_sdk_def)

lemma picky_builds:
  "n < 26 \<Longrightarrow> n \<noteq> 1 \<Longrightarrow>
   create_movie_bubble picky_sdk (extract_movie_info (lettered_entry n)) = Some (lettered_card n)"
  by (simp add: lettered_record create_movie_bubble_def lettered_body then_do_def mk_def
      picky_sdk_def lettered_card_def)

theorem failed_card_is_dropped_witness:
  "movie_bubble_body picky_sdk (extract_movie_info (lettered_entry 1)) = Inl ValueError \<and>
   length [extract_movie_info (lettered_entry 0)] < MAX_MOVIES \<and>
   parse_movies_from_html fifteen_soup =
     [extract_movie_info (lettered_entry 0)] @ extract_movie_info (lettered_entry 1) #
       map (\<lambda>n. extract_movie_info (lettered_entry n)) [2, 3, 4, 5, 6, 7, 8, 9, 10, 11, 12, 13, 14] \<and>
   movie_cards picky_sdk (parse_movies_from_html fifteen_soup) =
     map lettered_card [0, 2, 3, 4, 5, 6, 7, 8, 9]"
proof -
  have l: "length [extract_movie_info (lettered_entry 0)] < MAX_MOVIES"
    by (simp add: MAX_MOVIES_def)
  have p: "parse_movies_from_html fifteen_soup =
     [extract_movie_info (lettered_entry 0)] @ extract_movie_info (lettered_entry 1) #
       map (\<lambda>n. extract_movie_info (lettered_entry n)) [2, 3, 4, 5, 6, 7, 8, 9, 10, 11, 12, 13, 14]"
    by (simp add: fifteen_records upt_15)
  have t: "take (MAX_MOVIES - Suc (length [extract_movie_info (lettered_entry 0)]))
      (map (\<lambda>n. extract_movie_info (lettered_entry n)) [2, 3, 4, 5, 6, 7, 8, 9, 10, 11, 12, 13, 14]) =
      map (\<lambda>n. extract_movie_info (lettered_entry n)) [2, 3, 4, 5, 6, 7, 8, 9]"
    by (simp add: MAX_MOVIES_def)
  have c: "movie_cards picky_sdk (parse_movies_from_html fifteen_soup) =
     map lettered_card [0, 2, 3, 4, 5, 6, 7, 8, 9]"
    using failed_card_is_dropped[OF picky_fails l,
        of "map (\<lambda>n. extract_movie_info (lettered_entry n)) [2, 3, 4, 5, 6, 7, 8, 9, 10, 11, 12, 13, 14]"]
    unfolding p[symmetric] t by (simp add: picky_builds)
  show ?thesis using picky_fails l p c by blast
qed















section \<open>Audio links\<close>

lemma hex_value_hex_digit: "d < 16 \<Longrightarrow> hex_value (hex_digit d) = Some d"
  by (auto simp: hex_value_def hex_digit_def)

lemma hex_digit_safe: "d < 16 \<Longrightarrow> always_safe (hex_digit d)"
  by (auto simp: always_safe_def hex_digit_def)

lemma percent_decode_quote_byte:
  assumes "b < 256"
  shows "percent_decode (quote_byte b @ rest) = map_option (\<lambda>bs. b # bs) (percent_decode rest)"
proof (cases "always_safe b \<or> b = 47")
  case True
  then have "b \<noteq> 37" by (auto simp: always_safe_def)
  then show ?thesis using True by (simp add: quote_byte_def)
next
  case False
  have "b div 16 < 16" "b mod 16 < 16" using assms by auto
  moreover have "16 * (b div 16) + b mod 16 = b" by simp
  ultimately show ?thesis using False
    by (simp add: quote_byte_def hex_value_hex_digit)
qed

lemma percent_decode_quoted:
  "list_all (\<lambda>b. b < 256) bs \<Longrightarrow> percent_decode (concat (map quote_byte bs)) = Some bs"
  by (induction bs) (simp_all add: percent_decode_quote_byte)

lemma quote_byte_chars:
  "b < 256 \<Longrightarrow> list_all (\<lambda>c. always_safe c \<or> c = 47 \<or> c = 37) (quote_byte b)"
  by (auto simp: quote_byte_def hex_digit_safe)

lemma quoted_chars:
  "list_all (\<lambda>b. b < 256) bs \<Longrightarrow>
   list_all (\<lambda>c. always_safe c \<or> c = 47 \<or> c = 37) (concat (map quote_byte bs))"
  by (induction bs) (simp_all add: quote_byte_chars)

lemma utf8_char_bytes: "utf8_char c = Some bs \<Longrightarrow> list_all (\<lambda>b. b < 256) bs"
  by (auto simp: utf8_char_def split: if_splits)

lemma utf8_encode_bytes: "utf8_encode s = Some bs \<Longrightarrow> list_all (\<lambda>b. b < 256) bs"
proof (induction s arbitrary: bs)
  case Nil
  then show ?case by simp
next
  case (Cons c s)
  then obtain b1 b2 where "utf8_char c = Some b1" "utf8_encode s = Some b2" "bs = b1 @ b2"
    by (auto split: option.splits)
  then show ?case using Cons.IH utf8_char_bytes by auto
qed

text \<open>
  Claim C9, as amended.  For a text that is not empty and has a UTF-8 encoding, the link
  is the fixed prefix followed by the percent-encoding of the UTF-8 bytes of the text:
  the encoding stands for exactly these bytes and is made of unreserved characters,
  \<open>/\<close> and \<open>%\<close>.  A text with a surrogate code point has no UTF-8 encoding and
  \<open>UnicodeEncodeError\<close> is raised.  For the empty text the link is the empty text.
\<close>

theorem audio_link_is_template:
  "(text \<noteq> [] \<and> utf8_encode text = Some bs \<longrightarrow>
      generate_audio_url text = Inr (tts_prefix @ concat (map quote_byte bs)) \<and>
      percent_decode (concat (map quote_byte bs)) = Some bs \<and>
      list_all (\<lambda>c. always_safe c \<or> c = 47 \<or> c = 37) (concat (map quote_byte bs))) \<and>
   (text \<noteq> [] \<and> utf8_encode text = None \<longrightarrow>
      generate_audio_url text = Inl UnicodeEncodeError) \<and>
   generate_audio_url [] = Inr []"
proof (intro conjI impI)
  assume a: "text \<noteq> [] \<and> utf8_encode text = Some bs"
  then show "generate_audio_url text = Inr (tts_prefix @ concat (map quote_byte bs))"
    by (simp add: generate_audio_url_def quote_def then_do_def)
  show "percent_decode (concat (map quote_byte bs)) = Some bs"
    using a utf8_encode_bytes percent_decode_quoted by blast
  show "list_all (\<lambda>c. always_safe c \<or> c = 47 \<or> c = 37) (concat (map quote_byte bs))"
    using a utf8_encode_bytes quoted_chars by blast
next
  assume "text \<noteq> [] \<and> utf8_encode text = None"
  then show "generate_audio_url text = Inl UnicodeEncodeError"
    by (simp add: generate_audio_url_def quote_def then_do_def)
next
  show "generate_audio_url [] = Inr []" by (simp add: generate_audio_url_def)
qed

lemma sample_utf8:
  "utf8_encode (asc ''hi there'' @ [0x4f60]) =
     Some [104, 105, 32, 116, 104, 101, 114, 101, 0xE4, 0xBD, 0xA0]"
  by (simp add: asc_def utf8_char_def)

lemma sample_quoted:
  "concat (map quote_byte [104, 105, 32, 116, 104, 101, 114, 101, 0xE4, 0xBD, 0xA0]) =
     asc ''hi%20there%E4%BD%A0''"
  by (simp add: asc_def quote_byte_def always_safe_def hex_digit_def)

theorem audio_link_is_template_witness:
  "asc ''hi there'' @ [0x4f60] \<noteq> [] \<and>
   utf8_encode (asc ''hi there'' @ [0x4f60]) =
     Some [104, 105, 32, 116, 104, 101, 114, 101, 0xE4, 0xBD, 0xA0] \<and>
   generate_audio_url (asc ''hi there'' @ [0x4f60]) =
     Inr (tts_prefix @ asc ''hi%20there%E4%BD%A0'') \<and>
   [0xd800] \<noteq> [] \<and> utf8_encode [0xd800] = None \<and>
   generate_audio_url [0xd800] = Inl UnicodeEncodeError"
proof -
  have n: "asc ''hi there'' @ [0x4f60] \<noteq> []" by (simp add: asc_def)
  have s: "utf8_encode [0xd800] = None" by (simp add: utf8_char_def)
  from audio_link_is_template[of "asc ''hi there'' @ [0x4f60]"
      "[104, 105, 32, 116, 104, 101, 114, 101, 0xE4, 0xBD, 0xA0]"]
    audio_link_is_template[of "[0xd800]" "[]"] n s sample_utf8
  show ?thesis unfolding sample_quoted by simp
qed

theorem empty_text_counterexample:
  "generate_audio_url [] = Inr [] \<and> generate_audio_url [] \<noteq> Inr (tts_prefix @ [])"
  by (simp add: generate_audio_url_def tts_prefix_def asc_def)

section \<open>Vocabulary lesson\<close>

lemma loads_empty_array: "json_loads (asc ''[]'') = Inr (JArr [])"
  by (simp add: json_loads_def asc_def startswith_def)

lemma loads_number: "json_loads (asc ''123'') = Inr (JNum (asc ''123''))"
  by (simp add: json_loads_def asc_def startswith_def scan_atom_def scan_number_def scan_int_def
      scan_frac_def scan_exp_def is_digit_def)

text \<open>
  Claim C5.  The response \<open>[]\<close> is a \<open>str\<close> that \<open>json.loads\<close> reads, as the empty
  list.  No recovery and no fallback take place, the loop over the required fields raises
  \<open>TypeError\<close> outside the \<open>try\<close>, and no record is produced.
\<close>

theorem non_object_response_raises:
  "json_loads (asc ''[]'') = Inr (JArr []) \<and>
   get_english_word (RespStr (asc ''[]'')) = Inl TypeError \<and>
   json_loads (asc ''123'') = Inr (JNum (asc ''123'')) \<and>
   get_english_word (RespStr (asc ''123'')) = Inl TypeError"
  by (simp add: get_english_word_def recover_json_def loads_empty_array loads_number)

section \<open>Poster URL\<close>










lemma image_patterns_list: "image_patterns = [bg_image_rx, bg_rx, url_rx]"
  by (simp add: image_patterns_def bg_image_rx_def bg_rx_def)





lemma lit_i_first_fail: "\<not> ci_match c x \<Longrightarrow> match_here (lit_i (c # L) r) (x # xs) = None"
  by (simp add: match_here_def)









lemma search_Some_matches:
  assumes "search r t = Some res"
  shows "\<exists>pre w post. t = pre @ w @ post \<and> matches r w"
proof -
  obtain pre rest where p: "t = pre @ rest" "match_here r rest = Some res"
    using search_Some_leftmost[OF assms] by blast
  have "rmatch r rest None (\<lambda>s' g. Some (case g of None \<Rightarrow> [] | Some w \<Rightarrow> w)) = Some res"
    using p(2) by (simp add: match_here_def)
  from rmatch_sound[OF this] obtain w s' where "rest = w @ s'" "matches r w"
    by auto
  then have "t = pre @ w @ s' \<and> matches r w" using p(1) by simp
  then show ?thesis by (intro exI)
qed


































text \<open>
  Why the URL of a form on its own is taken without parentheses: the group of a pattern is
  the shortest text that a closing parenthesis follows, so a URL is cut at its first
  closing parenthesis.
\<close>

lemma paren_first: "search bg_image_rx (asc ''url(http://a/b_(1).png)'') = None"
  by (simp add: asc_def bg_image_rx_def url_rx_def match_here_def ci_match_def is_space_def
      quote_class_def)

lemma paren_second: "search bg_rx (asc ''url(http://a/b_(1).png)'') = None"
  by (simp add: asc_def bg_rx_def url_rx_def match_here_def ci_match_def is_space_def
      quote_class_def)

lemma paren_third:
  "search url_rx (asc ''url(http://a/b_(1).png)'') = Some (asc ''http://a/b_(1'')"
  by (simp add: asc_def url_rx_def match_here_def ci_match_def is_space_def quote_class_def)

lemma paren_clean:
  "strip (strip_chars (\<lambda>c. c = 39 \<or> c = 34) (asc ''http://a/b_(1'')) = asc ''http://a/b_(1''"
  by (simp add: asc_def strip_def strip_chars_def is_space_def)

lemma parenthesis_cuts_url:
  "image_url_loop image_patterns (asc ''url(http://a/b_(1).png)'') = asc ''http://a/b_(1''"
proof -
  have b: "\<not> startswith (asc ''http://a/b_(1'') (asc ''data:'')" "asc ''http://a/b_(1'' \<noteq> []"
    by (simp_all add: startswith_def asc_def)
  show ?thesis
    unfolding image_patterns_list image_url_loop.simps paren_first paren_second paren_third
      option.case Let_def paren_clean
    using b by simp
qed

section \<open>Recovering the vocabulary record\<close>

lemma fill_required_keeps:
  "map_of d k = Some v \<Longrightarrow> map_of (fill_required fs d) k = Some v"
  by (induction fs arbitrary: d) (auto simp: map_add_def split: option.splits)

lemma fill_required_has: "f \<in> set fs \<Longrightarrow> map_of (fill_required fs d) f \<noteq> None"
proof (induction fs arbitrary: d)
  case Nil
  then show ?case by simp
next
  case (Cons a fs)
  show ?case
  proof (cases "f = a")
    case True
    let ?d = "if map_of d a = None then d @ [(a, JStr [])] else d"
    have "map_of ?d a \<noteq> None" by (auto simp: map_add_def split: option.splits)
    then obtain v where "map_of ?d a = Some v" by blast
    from fill_required_keeps[OF this, of fs] show ?thesis using True by simp
  next
    case False
    then show ?thesis using Cons by simp
  qed
qed

lemma fill_required_default:
  "f \<in> set fs \<Longrightarrow> map_of d f = None \<Longrightarrow> map_of (fill_required fs d) f = Some (JStr [])"
proof (induction fs arbitrary: d)
  case Nil
  then show ?case by simp
next
  case (Cons a fs)
  show ?case
  proof (cases "f = a")
    case True
    have "map_of (d @ [(a, JStr [])]) a = Some (JStr [])"
      using Cons.prems(2) True by (simp add: map_add_def)
    from fill_required_keeps[OF this, of fs] show ?thesis using True Cons.prems(2) by simp
  next
    case False
    then have "map_of (if map_of d a = None then d @ [(a, JStr [])] else d) f = None"
      using Cons.prems(2) by (simp add: map_add_def)
    then show ?thesis using Cons False by simp
  qed
qed

lemma fill_required_id: "\<forall>f \<in> set fs. map_of d f \<noteq> None \<Longrightarrow> fill_required fs d = d"
  by (induction fs arbitrary: d) auto

lemma get_english_word_fields:
  assumes "get_english_word r = Inr wd" and "f \<in> set required_fields"
  shows "map_of wd f \<noteq> None"
proof -
  from assms(1) obtain d where "wd = fill_required required_fields d"
    by (auto simp: get_english_word_def Let_def split: json.splits sum.splits)
  then show ?thesis using fill_required_has[OF assms(2)] by simp
qed

lemma star_greedy_last:
  assumes "c \<notin> set post" and "F post = Some res"
  shows "star_greedy CAny (mid @ c # post)
           (\<lambda>s'. case s' of [] \<Rightarrow> None | x # xs \<Rightarrow> if x = c then F xs else None) = Some res"
proof -
  let ?K = "\<lambda>s'. case s' of [] \<Rightarrow> None | x # xs \<Rightarrow> if x = c then F xs else None"
  have none: "\<And>t. c \<notin> set t \<Longrightarrow> star_greedy CAny t ?K = None"
    subgoal for t by (induction t) simp_all
    done
  have here: "?K (c # post) = Some res" by (simp add: assms(2))
  show ?thesis
  proof (induction mid)
    case Nil
    have "star_greedy CAny (c # post) ?K =
        (case star_greedy CAny post ?K of Some r \<Rightarrow> Some r | None \<Rightarrow> ?K (c # post))"
      by simp
    then show ?case by (simp only: none[OF assms(1)] here option.case append_Nil)
  next
    case (Cons a mid)
    have "star_greedy CAny (a # mid @ c # post) ?K =
        (case star_greedy CAny (mid @ c # post) ?K of Some r \<Rightarrow> Some r
         | None \<Rightarrow> ?K (a # mid @ c # post))"
      by simp
    then show ?case by (simp only: Cons option.case append_Cons)
  qed
qed

lemma json_rx_here:
  assumes "125 \<notin> set post"
  shows "match_here json_rx (123 # mid @ 125 # post) = Some (123 # mid @ [125])"
proof -
  let ?s = "123 # mid @ 125 # post"
  let ?F = "\<lambda>xs. Some (take (length ?s - length xs) ?s)"
  have F: "?F post = Some (123 # mid @ [125])" by simp
  define k1 where "k1 = (\<lambda>(s'::ustring) (g'::ustring option). ?F s')"
  have k: "\<And>s'. rmatch (Sym (CLit 125)) s' None k1 =
      (case s' of [] \<Rightarrow> None | x # xs \<Rightarrow> if x = 125 then ?F xs else None)"
    by (simp add: k1_def split: list.splits)
  have "match_here json_rx ?s =
      rmatch (Cat (Sym (CLit 123)) (Cat (Star CAny) (Sym (CLit 125)))) ?s None k1"
    by (simp only: match_here_def json_rx_def rmatch.simps(8) option.case k1_def)
  also have "\<dots> = star_greedy CAny (mid @ 125 # post) (\<lambda>s'. rmatch (Sym (CLit 125)) s' None k1)"
    by (simp only: rmatch.simps(1,2,5) list.case cmatch.simps if_True refl)
  finally have e: "match_here json_rx ?s =
      star_greedy CAny (mid @ 125 # post)
        (\<lambda>s'. case s' of [] \<Rightarrow> None | x # xs \<Rightarrow> if x = 125 then ?F xs else None)"
    by (simp only: k)
  show ?thesis unfolding e
    by (rule star_greedy_last[where F = ?F, OF assms F])
qed

lemma json_rx_not_brace: "x \<noteq> 123 \<Longrightarrow> match_here json_rx (x # xs) = None"
  by (simp add: match_here_def json_rx_def)

lemma json_rx_span:
  assumes "123 \<notin> set pre" and "125 \<notin> set post"
  shows "search json_rx (pre @ 123 # mid @ 125 # post) = Some (123 # mid @ [125])"
  using assms(1)
proof (induction pre)
  case Nil
  then show ?case using json_rx_here[OF assms(2), of mid] by simp
next
  case (Cons a pre)
  then show ?case by (simp add: json_rx_not_brace)
qed

lemma json_rx_needs_braces:
  assumes "123 \<notin> set s \<or> 125 \<notin> set s"
  shows "search json_rx s = None"
proof (cases "search json_rx s")
  case None
  then show ?thesis .
next
  case (Some res)
  then obtain pre w post where w: "s = pre @ w @ post" "matches json_rx w"
    using search_Some_matches by blast
  from w(2) obtain u v z where uvz: "w = u @ v @ z" "matches (Sym (CLit 123)) u"
      "matches (Sym (CLit 125)) z"
    unfolding json_rx_def matches.simps(8) matches_Cat by blast
  have "u = [123]" using uvz(2) matches_Sym[of "CLit 123" u] by auto
  moreover have "z = [125]" using uvz(3) matches_Sym[of "CLit 125" z] by auto
  ultimately have "123 \<in> set w \<and> 125 \<in> set w" using uvz(1) by simp
  then show ?thesis using assms w(1) by auto
qed

lemma sample_object_loads: "json_loads sample_object = Inr (JObj sample_word)"
  by (simp add: sample_object_def sample_word_def json_loads_def asc_def startswith_def)

lemma noise_fails: "json_loads (asc ''noise '' @ sample_object @ asc '' noise'') = Inl JSONDecodeError"
  by (simp add: json_loads_def asc_def startswith_def scan_atom_def scan_number_def scan_int_def)

lemma garbage_fails: "json_loads (asc ''garbage'') = Inl JSONDecodeError"
  by (simp add: json_loads_def asc_def startswith_def scan_atom_def scan_number_def scan_int_def)

lemma json_loads_brace: "json_loads (123 # t) = Inr v \<Longrightarrow> \<exists>d. v = JObj d"
  by (auto simp: json_loads_def split: if_splits option.splits list.splits)


lemma recover_direct: "json_loads s = Inr v \<Longrightarrow> recover_json s = Inr v"
  by (simp add: recover_json_def)

lemma recover_span:
  "json_loads s = Inl JSONDecodeError \<Longrightarrow> search json_rx s = Some span \<Longrightarrow>
   recover_json s = json_loads span"
  by (simp add: recover_json_def)

lemma recover_none:
  "json_loads s = Inl JSONDecodeError \<Longrightarrow> search json_rx s = None \<Longrightarrow>
   recover_json s = Inl ValueError"
  by (simp add: recover_json_def)

lemma word_of_object:
  "recover_json s = Inr (JObj d) \<Longrightarrow>
   get_english_word (RespStr s) = Inr (fill_required required_fields d)"
  by (simp add: get_english_word_def)

lemma fallback_complete: "fill_required required_fields fallback_word = fallback_word"
  by (rule fill_required_id) (simp add: required_fields_def fallback_word_def asc_def)

lemma word_of_failure:
  "recover_json s = Inl e \<Longrightarrow> get_english_word (RespStr s) = Inr fallback_word"
  by (simp add: get_english_word_def fallback_complete)

lemma fill_required_value:
  "f \<in> set fs \<Longrightarrow>
   map_of (fill_required fs d) f = (case map_of d f of None \<Rightarrow> Some (JStr []) | Some v \<Rightarrow> Some v)"
  by (cases "map_of d f") (simp_all add: fill_required_default fill_required_keeps)

text \<open>
  What \<open>get_english_word\<close> does on a \<open>str\<close> response outside the case above.  A response
  that is a JSON object gives that object.  A response that is not JSON and has braces
  gives the span from its first opening brace to its last closing brace, read as JSON: an
  object if it can be read, the fallback record otherwise.  A response that is not JSON and
  lacks a brace gives the fallback record, whose word is \<open>fallback\<close>.  In the record
  that is rendered every required field is present: with its value in the object, and
  with the empty text when the object lacks it; an object with all seven is unchanged.
\<close>

theorem string_response_recovery:
  "(json_loads s = Inr (JObj d) \<longrightarrow>
      get_english_word (RespStr s) = Inr (fill_required required_fields d)) \<and>
   (json_loads s = Inl JSONDecodeError \<and> s = pre @ 123 # mid @ 125 # post \<and>
    123 \<notin> set pre \<and> 125 \<notin> set post \<longrightarrow>
      search json_rx s = Some (123 # mid @ [125]) \<and>
      (json_loads (123 # mid @ [125]) = Inr (JObj d) \<longrightarrow>
         get_english_word (RespStr s) = Inr (fill_required required_fields d)) \<and>
      (\<forall>v. json_loads (123 # mid @ [125]) = Inr v \<longrightarrow> (\<exists>d'. v = JObj d')) \<and>
      (\<forall>e. json_loads (123 # mid @ [125]) = Inl e \<longrightarrow>
         get_english_word (RespStr s) = Inr fallback_word)) \<and>
   (json_loads s = Inl JSONDecodeError \<and> (123 \<notin> set s \<or> 125 \<notin> set s) \<longrightarrow>
      get_english_word (RespStr s) = Inr fallback_word) \<and>
   map_of fallback_word (asc ''word'') = Some (JStr (asc ''fallback'')) \<and>
   ((\<forall>f \<in> set required_fields. map_of d f \<noteq> None) \<longrightarrow>
      fill_required required_fields d = d) \<and>
   (\<forall>f \<in> set required_fields.
      map_of (fill_required required_fields d) f =
        (case map_of d f of None \<Rightarrow> Some (JStr []) | Some v \<Rightarrow> Some v)) \<and>
   (\<forall>wd. get_english_word r = Inr wd \<longrightarrow> (\<forall>f \<in> set required_fields. map_of wd f \<noteq> None))"
proof (intro conjI impI allI ballI)
  assume "json_loads s = Inr (JObj d)"
  then show "get_english_word (RespStr s) = Inr (fill_required required_fields d)"
    by (intro word_of_object recover_direct)
next
  assume a: "json_loads s = Inl JSONDecodeError \<and> s = pre @ 123 # mid @ 125 # post \<and>
    123 \<notin> set pre \<and> 125 \<notin> set post"
  then have jl: "json_loads s = Inl JSONDecodeError" by blast
  from a show sp: "search json_rx s = Some (123 # mid @ [125])"
    using json_rx_span[of pre post mid] by simp
  {
    assume "json_loads (123 # mid @ [125]) = Inr (JObj d)"
    then have "recover_json s = Inr (JObj d)" using recover_span[OF jl sp] by simp
    then show "get_english_word (RespStr s) = Inr (fill_required required_fields d)"
      by (rule word_of_object)
  }
  {
    fix v assume "json_loads (123 # mid @ [125]) = Inr v"
    then show "\<exists>d'. v = JObj d'" by (rule json_loads_brace)
  }
  {
    fix e assume "json_loads (123 # mid @ [125]) = Inl e"
    then have "recover_json s = Inl e" using recover_span[OF jl sp] by simp
    then show "get_english_word (RespStr s) = Inr fallback_word" by (rule word_of_failure)
  }
next
  assume a: "json_loads s = Inl JSONDecodeError \<and> (123 \<notin> set s \<or> 125 \<notin> set s)"
  then have "search json_rx s = None" using json_rx_needs_braces by blast
  then have "recover_json s = Inl ValueError" using recover_none a by blast
  then show "get_english_word (RespStr s) = Inr fallback_word" by (rule word_of_failure)
next
  show "map_of fallback_word (asc ''word'') = Some (JStr (asc ''fallback''))"
    by (simp add: fallback_word_def)
next
  assume "\<forall>f \<in> set required_fields. map_of d f \<noteq> None"
  then show "fill_required required_fields d = d" by (rule fill_required_id)
next
  fix f assume "f \<in> set required_fields"
  then show "map_of (fill_required required_fields d) f =
        (case map_of d f of None \<Rightarrow> Some (JStr []) | Some v \<Rightarrow> Some v)"
    by (rule fill_required_value)
next
  fix wd f assume "get_english_word r = Inr wd" "f \<in> set required_fields"
  then show "map_of wd f \<noteq> None" by (rule get_english_word_fields)
qed

lemma sample_word_complete: "\<forall>f \<in> set required_fields. map_of sample_word f \<noteq> None"
  by (simp add: required_fields_def sample_word_def asc_def)

lemma sample_object_span: "\<exists>mid. sample_object = 123 # mid @ [125]"
  by (simp add: sample_object_def asc_def)

theorem string_response_recovery_witness:
  "json_loads (asc ''noise '' @ sample_object @ asc '' noise'') = Inl JSONDecodeError \<and>
   json_loads sample_object = Inr (JObj sample_word) \<and>
   get_english_word (RespStr (asc ''noise '' @ sample_object @ asc '' noise'')) = Inr sample_word \<and>
   get_english_word (RespStr sample_object) = Inr sample_word \<and>
   json_loads (asc ''garbage'') = Inl JSONDecodeError \<and>
   get_english_word (RespStr (asc ''garbage'')) = Inr fallback_word"
proof -
  obtain mid where mid: "sample_object = 123 # mid @ [125]" using sample_object_span by blast
  let ?s = "asc ''noise '' @ sample_object @ asc '' noise''"
  have s: "?s = asc ''noise '' @ 123 # mid @ 125 # asc '' noise''" by (simp add: mid)
  have p: "123 \<notin> set (asc ''noise '')" "125 \<notin> set (asc '' noise'')" by (simp_all add: asc_def)
  have g: "123 \<notin> set (asc ''garbage'')" by (simp add: asc_def)
  have f: "fill_required required_fields sample_word = sample_word"
    by (rule fill_required_id[OF sample_word_complete])
  let ?t = "asc ''noise '' @ 123 # mid @ 125 # asc '' noise''"
  have nf: "json_loads ?t = Inl JSONDecodeError" using noise_fails by (simp add: mid)
  have so: "json_loads (123 # mid @ [125]) = Inr (JObj sample_word)"
    using sample_object_loads by (simp add: mid)
  from string_response_recovery[of ?t sample_word "asc ''noise ''" mid "asc '' noise''"] nf p so
  have "get_english_word (RespStr ?t) = Inr (fill_required required_fields sample_word)"
    by blast
  then have 1: "get_english_word (RespStr ?s) = Inr sample_word" by (simp add: f mid)
  from string_response_recovery[of sample_object sample_word] sample_object_loads f
  have 2: "get_english_word (RespStr sample_object) = Inr sample_word" by simp
  from string_response_recovery[of "asc ''garbage''"] garbage_fails g
  have 3: "get_english_word (RespStr (asc ''garbage'')) = Inr fallback_word" by blast
  show ?thesis using noise_fails sample_object_loads garbage_fails 1 2 3 by blast
qed

section \<open>The JSON reader consumes its input\<close>

text \<open>
  Every value that is read leaves a shorter text.  So the tests on the length in
  \<open>parse_members\<close> and \<open>parse_elements\<close>, which their termination proof uses, always
  hold, and both functions are the plain loops of the decoder.
\<close>

lemma scan_int_length: "scan_int s = Some (t, r) \<Longrightarrow> length r < length s"
  using length_dropWhile_le[of is_digit "tl s"]
  by (cases s) (auto simp: scan_int_def split: if_splits)

lemma scan_frac_length: "scan_frac s = (t, r) \<Longrightarrow> length r \<le> length s"
proof (cases s)
  case Nil
  then show "scan_frac s = (t, r) \<Longrightarrow> length r \<le> length s" by (simp add: scan_frac_def)
next
  case (Cons a s1)
  assume h: "scan_frac s = (t, r)"
  show ?thesis
  proof (cases s1)
    case Nil
    then show ?thesis using h Cons by (simp add: scan_frac_def)
  next
    case (Cons b s2)
    have "length (dropWhile is_digit s2) \<le> length s2" by (rule length_dropWhile_le)
    then show ?thesis using h \<open>s = a # s1\<close> Cons
      by (auto simp: scan_frac_def split: if_splits)
  qed
qed

lemma scan_exp_length: "scan_exp s = (t, r) \<Longrightarrow> length r \<le> length s"
proof (cases s)
  case Nil
  then show "scan_exp s = (t, r) \<Longrightarrow> length r \<le> length s" by (simp add: scan_exp_def)
next
  case (Cons e s1)
  assume h: "scan_exp s = (t, r)"
  have d: "\<And>n. length (dropWhile is_digit (drop n s1)) \<le> Suc (length s1)"
    subgoal for n using length_dropWhile_le[of is_digit "drop n s1"] by simp
    done
  have "r = s \<or> (\<exists>n. r = dropWhile is_digit (drop n s1))"
    using h Cons by (auto simp: scan_exp_def Let_def split: if_splits)
  then show ?thesis using d Cons by auto
qed

lemma scan_number_length: "scan_number s = Some (t, r) \<Longrightarrow> length r < length s"
proof -
  assume h: "scan_number s = Some (t, r)"
  obtain minus s1 where m: "(case s of [] \<Rightarrow> ([], s) | c # cs \<Rightarrow> if c = 45 then ([c], cs) else ([], s)) = (minus, s1)"
    by (cases "(case s of [] \<Rightarrow> ([], s) | c # cs \<Rightarrow> if c = 45 then ([c], cs) else ([], s))") auto
  then have l1: "length s1 \<le> length s" by (cases s) (auto split: if_splits)
  from h m obtain integer s2 where i: "scan_int s1 = Some (integer, s2)"
    by (auto simp: scan_number_def split: option.splits)
  obtain frac s3 where f: "scan_frac s2 = (frac, s3)" by (cases "scan_frac s2")
  obtain ex s4 where e: "scan_exp s3 = (ex, s4)" by (cases "scan_exp s3")
  have "r = s4" using h m i f e by (simp add: scan_number_def)
  then show ?thesis
    using l1 scan_int_length[OF i] scan_frac_length[OF f] scan_exp_length[OF e] by simp
qed

lemma startswith_length: "startswith s p \<Longrightarrow> length p \<le> length s"
  by (metis startswith_def length_take min.cobounded1 min_def)

lemma startswith_nonempty: "startswith s (asc (c # p)) \<Longrightarrow> 0 < length s"
  by (cases s) (auto simp: startswith_def asc_def)

lemma scan_atom_length: "scan_atom s = Some (v, r) \<Longrightarrow> length r < length s"
proof (cases "scan_atom s = map_option (\<lambda>(t, rest). (JNum t, rest)) (scan_number s)")
  case True
  assume "scan_atom s = Some (v, r)"
  then show ?thesis using True scan_number_length by (auto split: option.splits)
next
  case False
  assume h: "scan_atom s = Some (v, r)"
  from False have "0 < length s"
    by (auto simp: scan_atom_def split: if_splits dest: startswith_nonempty)
  moreover from False h have
    "r = drop 3 s \<or> r = drop 4 s \<or> r = drop 5 s \<or> r = drop 8 s \<or> r = drop 9 s"
    by (auto simp: scan_atom_def split: if_splits)
  ultimately show ?thesis by auto
qed


lemma parse_consumes:
  "(\<forall>v r. parse_value s = Some (v, r) \<longrightarrow> length r < length s)"
  "(\<forall>kvs r. parse_members acc s' = Some (kvs, r) \<longrightarrow> length r < length s')"
  "(\<forall>vs r. parse_elements acc' s'' = Some (vs, r) \<longrightarrow> length r < length s'')"
proof (induction s and acc s' and acc' s'' rule: parse_value_parse_members_parse_elements.induct)
  case 1
  then show ?case by simp
next
  case (2 c cs)
  show ?case
  proof (intro allI impI)
    fix v r assume h: "parse_value (c # cs) = Some (v, r)"
    consider (str) "c = 34" | (obj) "c \<noteq> 34" "c = 123" | (arr) "c \<noteq> 34" "c \<noteq> 123" "c = 91"
      | (atom) "c \<noteq> 34" "c \<noteq> 123" "c \<noteq> 91" by blast
    then show "length r < length (c # cs)"
    proof cases
      case str
      then obtain t where "scanstring [] cs = Some (t, r)" using h by auto
      then show ?thesis using scanstring_length by fastforce
    next
      case obj
      then obtain d ds where d: "skip_ws cs = d # ds" using h by (cases "skip_ws cs") auto
      have l: "length ds < length cs" using skip_ws_Cons[OF d] .
      show ?thesis
      proof (cases "d = 125")
        case True
        then show ?thesis using h obj d l by simp
      next
        case False
        then obtain kvs where "parse_members [] (d # ds) = Some (kvs, r)"
          using h obj d by auto
        then have "length r < length (d # ds)" using "2.IH"(1)[OF obj d False] by blast
        then show ?thesis using l by simp
      qed
    next
      case arr
      then obtain d ds where d: "skip_ws cs = d # ds" using h by (cases "skip_ws cs") auto
      have l: "length ds < length cs" using skip_ws_Cons[OF d] .
      show ?thesis
      proof (cases "d = 93")
        case True
        then show ?thesis using h arr d l by simp
      next
        case False
        then obtain vs where "parse_elements [] (d # ds) = Some (vs, r)"
          using h arr d by auto
        then have "length r < length (d # ds)" using "2.IH"(2)[OF arr d False] by blast
        then show ?thesis using l by simp
      qed
    next
      case atom
      then have "scan_atom (c # cs) = Some (v, r)" using h by simp
      then show ?thesis by (rule scan_atom_length)
    qed
  qed
next
  case (3 acc)
  then show ?case by simp
next
  case (4 acc q s1)
  show ?case
  proof (intro allI impI)
    fix kvs r assume h: "parse_members acc (q # s1) = Some (kvs, r)"
    then have q: "\<not> q \<noteq> 34" by (auto split: if_splits)
    from h q obtain key s2 where k: "scanstring [] s1 = Some (key, s2)"
      by (cases "scanstring [] s1") auto
    from h q k obtain colon s3 where c: "skip_ws s2 = colon # s3"
      by (cases "skip_ws s2") auto
    from h q k c have c58: "\<not> colon \<noteq> 58" by (auto split: if_splits)
    from h q k c c58 obtain v s4 where v: "parse_value (skip_ws s3) = Some (v, s4)"
      by (cases "parse_value (skip_ws s3)") auto
    from h q k c c58 v have g: "length s4 < length s3" by (auto split: if_splits)
    from h q k c c58 v g obtain e s5 where e: "skip_ws s4 = e # s5"
      by (cases "skip_ws s4") auto
    have l: "length s5 < length s1"
      using skip_ws_Cons[OF e] g skip_ws_Cons[OF c] scanstring_length[OF k] by simp
    show "length r < length (q # s1)"
    proof (cases "e = 125")
      case True
      then show ?thesis using h q k c c58 v g e l by simp
    next
      case False
      then have e44: "e = 44" using h q k c c58 v g e by (auto split: if_splits)
      then have "parse_members (dict_set acc key v) (skip_ws s5) = Some (kvs, r)"
        using h q k c c58 v g e False by simp
      then have "length r < length (skip_ws s5)"
        using "4.IH"(2)[OF q k refl c c58 v refl g e False e44] by blast
      then show ?thesis using skip_ws_length[of s5] l by simp
    qed
  qed
next
  case (5 acc s)
  show ?case
  proof (intro allI impI)
    fix vs r assume h: "parse_elements acc s = Some (vs, r)"
    then obtain v s1 where v: "parse_value s = Some (v, s1)"
      by (cases "parse_value s") auto
    from h v have g: "length s1 < length s" by (auto split: if_splits)
    from h v g obtain e s2 where e: "skip_ws s1 = e # s2" by (cases "skip_ws s1") auto
    have l: "length s2 < length s" using skip_ws_Cons[OF e] g by simp
    show "length r < length s"
    proof (cases "e = 93")
      case True
      then show ?thesis using h v g e l by simp
    next
      case False
      then have e44: "e = 44" using h v g e by (auto split: if_splits)
      then have "parse_elements (acc @ [v]) (skip_ws s2) = Some (vs, r)"
        using h v g e False by simp
      then have "length r < length (skip_ws s2)"
        using "5.IH"(2)[OF v refl g e False e44] by blast
      then show ?thesis using skip_ws_length[of s2] l by simp
    qed
  qed
qed


lemma parse_value_consumes: "parse_value s = Some (v, r) \<Longrightarrow> length r < length s"
  using parse_consumes(1) by blast

lemma parse_elements_unguarded:
  "parse_elements acc s =
     (case parse_value s of
        None \<Rightarrow> None
      | Some (v, s1) \<Rightarrow>
          (case skip_ws s1 of
             [] \<Rightarrow> None
           | e # s2 \<Rightarrow>
               if e = 93 then Some (acc @ [v], s2)
               else if e = 44 then parse_elements (acc @ [v]) (skip_ws s2)
               else None))"
proof (cases "parse_value s")
  case None
  then show ?thesis by simp
next
  case (Some p)
  obtain v s1 where p: "p = (v, s1)" by (cases p)
  have "length s1 < length s" using parse_value_consumes Some p by blast
  then show ?thesis
    by (subst parse_elements.simps) (simp add: Some p)
qed

lemma parse_members_unguarded:
  "parse_members acc (q # s1) =
     (if q \<noteq> 34 then None
      else
        (case scanstring [] s1 of
           None \<Rightarrow> None
         | Some (key, s2) \<Rightarrow>
             (case skip_ws s2 of
                [] \<Rightarrow> None
              | colon # s3 \<Rightarrow>
                  if colon \<noteq> 58 then None
                  else
                    (case parse_value (skip_ws s3) of
                       None \<Rightarrow> None
                     | Some (v, s4) \<Rightarrow>
                         (case skip_ws s4 of
                            [] \<Rightarrow> None
                          | e # s5 \<Rightarrow>
                              if e = 125 then Some (dict_set acc key v, s5)
                              else if e = 44 then parse_members (dict_set acc key v) (skip_ws s5)
                              else None)))))"
proof -
  have "\<And>s3 v s4. parse_value (skip_ws s3) = Some (v, s4) \<Longrightarrow> length s4 < length s3"
    subgoal for s3 v s4
      using parse_value_consumes[of "skip_ws s3" v s4] skip_ws_length[of s3] by simp
    done
  then show ?thesis
    by (subst parse_members.simps) (auto split: option.splits list.splits)
qed

end
